theory Spec2Isabelle
  imports Complex_Main
begin

section \<open>Optical response of a triangular nanoprism: the model of triangle.cpp\<close>

text \<open>
  The program computes with C++ \<open>double\<close> and \<open>std::complex<double>\<close>. The model computes
  the same expressions in exact arithmetic on \<^typ>\<open>real\<close> and \<^typ>\<open>complex\<close>: \<open>M_PI\<close> is
  \<^term>\<open>pi\<close>, \<open>sqrt\<close> is \<^term>\<open>sqrt\<close>, and \<open>pow(x, y)\<close> with a real exponent is
  \<^term>\<open>x powr y\<close>, which is what \<open>pow\<close> computes for a positive base. Rounding and
  overflow are outside this model; a second model, on binary64 values, has them for the
  interpolation and the dielectric functions. An outcome that is not a finite number is
  written into the exact model where the tables decide it (a zero Lagrange denominator);
  elsewhere division is the division of the reals and of the complex numbers, and the
  model is the program in exact arithmetic wherever no divisor is zero.
\<close>

subsection \<open>Outcomes\<close>

text \<open>
  \<open>OutOfRange\<close> is the branch of \<open>epsAg\<close> and \<open>epsAu\<close> that prints the message
  and calls \<open>exit(0)\<close>. \<open>OutOfBounds\<close> is a read outside an array (undefined behaviour
  in C++). \<open>NotFinite\<close> is a division by zero inside the interpolation formula, where IEEE
  arithmetic yields an infinity or a NaN and so does the sum of the four terms.
\<close>

datatype fault = OutOfRange | OutOfBounds | NotFinite

text \<open>Sequencing: a fault ends the computation, a value is passed on.\<close>

definition and_then :: "fault + 'a \<Rightarrow> ('a \<Rightarrow> fault + 'b) \<Rightarrow> fault + 'b" where
  "and_then m f = (case m of Inl e \<Rightarrow> Inl e | Inr v \<Rightarrow> f v)"

subsection \<open>Interpolation procedure\<close>

text \<open>The array read \<open>a[k]\<close> with a C++ \<open>int\<close> index.\<close>

definition rd :: "real list \<Rightarrow> int \<Rightarrow> fault + real" where
  "rd a k = (if 0 \<le> k \<and> k < int (length a) then Inr (a ! nat k) else Inl OutOfBounds)"

text \<open>
  The search loop of \<open>interpolate\<close>:
  \<^verbatim>\<open>for (int j = 1; j < n; ++j) if (flag && (x_arr[j] > x_val)) { i = j - 1; flag = false; }\<close>
  with the loop variable \<open>j\<close> and the state \<open>i\<close>, \<open>flag\<close> as arguments; it returns the final
  \<open>i\<close>. The array is read only while \<open>flag\<close> holds, as \<open>&&\<close> evaluates.
\<close>

function scan :: "int \<Rightarrow> real list \<Rightarrow> real \<Rightarrow> int \<Rightarrow> int \<Rightarrow> bool \<Rightarrow> fault + int" where
  "scan n x_arr x_val j i flag =
     (if j < n then
        (if flag then
           (case rd x_arr j of
              Inl e \<Rightarrow> Inl e
            | Inr xj \<Rightarrow>
                if xj > x_val then scan n x_arr x_val (j + 1) (j - 1) False
                else scan n x_arr x_val (j + 1) i flag)
         else scan n x_arr x_val (j + 1) i flag)
      else Inr i)"
  by pat_completeness auto
termination
  by (relation "measure (\<lambda>(n, x_arr, x_val, j, i, flag). nat (n - j))") auto

declare scan.simps [simp del]

text \<open>The two clamps \<open>if(i < 1) i = 1; if(i > n - 3) i = n - 3;\<close> in this order.\<close>

definition clamp_index :: "int \<Rightarrow> int \<Rightarrow> int" where
  "clamp_index n i0 =
     (let i1 = (if i0 < 1 then 1 else i0) in if i1 > n - 3 then n - 3 else i1)"

text \<open>The four reads \<open>a[i - 1]\<close>, \<open>a[i]\<close>, \<open>a[i + 1]\<close>, \<open>a[i + 2]\<close> that fill \<open>x[4]\<close> or \<open>y[4]\<close>.\<close>

definition window :: "real list \<Rightarrow> int \<Rightarrow> fault + real \<times> real \<times> real \<times> real" where
  "window a i =
     and_then (rd a (i - 1)) (\<lambda>a0.
     and_then (rd a i) (\<lambda>a1.
     and_then (rd a (i + 1)) (\<lambda>a2.
     and_then (rd a (i + 2)) (\<lambda>a3. Inr (a0, a1, a2, a3)))))"

text \<open>
  The returned expression, a sum of four quotients. A quotient whose denominator is zero
  is not finite, and neither is the sum then.
\<close>

definition lagrange4 ::
  "real \<times> real \<times> real \<times> real \<Rightarrow> real \<times> real \<times> real \<times> real \<Rightarrow> real \<Rightarrow> fault + real" where
  "lagrange4 x y x_val =
     (let (x0, x1, x2, x3) = x; (y0, y1, y2, y3) = y in
      if (x0 - x1) * (x0 - x2) * (x0 - x3) = 0 \<or> (x1 - x0) * (x1 - x2) * (x1 - x3) = 0
         \<or> (x2 - x0) * (x2 - x1) * (x2 - x3) = 0 \<or> (x3 - x0) * (x3 - x1) * (x3 - x2) = 0
      then Inl NotFinite
      else Inr
        ((x_val - x1) * (x_val - x2) * (x_val - x3) * y0 / ((x0 - x1) * (x0 - x2) * (x0 - x3))
       + (x_val - x0) * (x_val - x2) * (x_val - x3) * y1 / ((x1 - x0) * (x1 - x2) * (x1 - x3))
       + (x_val - x0) * (x_val - x1) * (x_val - x3) * y2 / ((x2 - x0) * (x2 - x1) * (x2 - x3))
       + (x_val - x0) * (x_val - x1) * (x_val - x2) * y3 / ((x3 - x0) * (x3 - x1) * (x3 - x2))))"

definition interpolate :: "int \<Rightarrow> real list \<Rightarrow> real list \<Rightarrow> real \<Rightarrow> fault + real" where
  "interpolate n x_arr y_arr x_val =
     and_then (scan n x_arr x_val 1 0 True) (\<lambda>i0.
       let i = clamp_index n i0 in
       and_then (window x_arr i) (\<lambda>x.
       and_then (window y_arr i) (\<lambda>y. lagrange4 x y x_val)))"

subsection \<open>Dielectric functions of silver and gold\<close>

text \<open>
  The tables of \<open>epsAg\<close> (Johnson and Christy, 49 points) and of \<open>epsAu\<close> (Olmon et al.,
  448 points): the local arrays \<open>energy\<close>, \<open>ndata\<close>, \<open>kdata\<close> and the constant \<open>num\<close> of
  each function.
\<close>

definition num_Ag :: int where
  "num_Ag = 49"

definition num_Au :: int where
  "num_Au = 448"

definition energy_Ag :: "real list" where
  "energy_Ag =
    [0.64, 0.77, 0.89, 1.02, 1.14, 1.26, 1.39, 1.51, 1.64, 1.76, 1.88, 2.01, 2.13, 2.26, 2.38,
    2.50, 2.63, 2.75, 2.88, 3.00, 3.12, 3.25, 3.37, 3.50, 3.62, 3.74, 3.87, 3.99, 4.12, 4.24,
    4.36, 4.49, 4.61, 4.74, 4.86, 4.98, 5.11, 5.23, 5.36, 5.48, 5.60, 5.73, 5.85, 5.98, 6.10,
    6.22, 6.35, 6.47, 6.60]"

definition ndata_Ag :: "real list" where
  "ndata_Ag =
    [0.24, 0.15, 0.13, 0.09, 0.04, 0.04, 0.04, 0.04, 0.03, 0.04, 0.05, 0.06, 0.05, 0.06, 0.05,
    0.05, 0.05, 0.04, 0.04, 0.05, 0.05, 0.05, 0.07, 0.10, 0.14, 0.17, 0.81, 1.13, 1.34, 1.39,
    1.41, 1.41, 1.38, 1.35, 1.33, 1.31, 1.30, 1.28, 1.28, 1.26, 1.25, 1.22, 1.20, 1.18, 1.15,
    1.14, 1.12, 1.10, 1.07]"

definition kdata_Ag :: "real list" where
  "kdata_Ag =
    [14.080, 11.85, 10.10, 8.828, 7.795, 6.992, 6.312, 5.727, 5.242, 4.838, 4.483, 4.152, 3.858,
    3.586, 3.324, 3.093, 2.869, 2.657, 2.462, 2.275, 2.070, 1.864, 1.657, 1.419, 1.142, 0.829,
    0.392, 0.616, 0.964, 1.161, 1.264, 1.331, 1.372, 1.387, 1.393, 1.389, 1.378, 1.367, 1.357,
    1.344, 1.342, 1.336, 1.325, 1.312, 1.296, 1.277, 1.255, 1.232, 1.212]"

definition energy_Au :: "real list" where
  "energy_Au =
    [0.0497329, 0.0516601, 0.0535569, 0.0554739, 0.0574001, 0.0592942, 0.0612268, 0.0631284,
    0.0650494, 0.0669461, 0.0688801, 0.0707672, 0.0726754, 0.0745994, 0.0765334, 0.0784214,
    0.0803527, 0.0822722, 0.0841712, 0.0861001, 0.0879944, 0.0899088, 0.0918401, 0.0937144,
    0.0956668, 0.0975485, 0.0995058, 0.101377, 0.10332, 0.10525, 0.10716, 0.109045, 0.110997,
    0.112815, 0.1148, 0.116636, 0.118645, 0.12049, 0.122393, 0.124345, 0.126257, 0.128176,
    0.130085, 0.131996, 0.133907, 0.135828, 0.13773, 0.139653, 0.141567, 0.143467, 0.145385,
    0.147302, 0.149217, 0.151126, 0.153048, 0.154961, 0.156863, 0.158771, 0.160685, 0.162602,
    0.164523, 0.166422, 0.168342, 0.170261, 0.172176, 0.174086, 0.175989, 0.177908, 0.179818,
    0.181742, 0.183653, 0.18555, 0.187486, 0.189376, 0.191304, 0.193212, 0.195128, 0.197051,
    0.198948, 0.200849, 0.202787, 0.204696, 0.206606, 0.208517, 0.210428, 0.212338, 0.214246,
    0.216151, 0.21809, 0.219986, 0.221915, 0.223839, 0.225713, 0.227661, 0.229558, 0.231487,
    0.233404, 0.235309, 0.237199, 0.239121, 0.241027, 0.242963, 0.244883, 0.246784, 0.248665,
    0.250625, 0.252514, 0.254431, 0.256325, 0.258247, 0.260143, 0.262068, 0.263965, 0.265889,
    0.267842, 0.269707, 0.271657, 0.273575, 0.275459, 0.27737, 0.279307, 0.281207, 0.283134,
    0.285021, 0.286934, 0.288873, 0.29077, 0.292692, 0.294569, 0.296542, 0.298398, 0.300349,
    0.302253, 0.304181, 0.306058, 0.307959, 0.309883, 0.311831, 0.313725, 0.315642, 0.317582,
    0.319465, 0.321369, 0.323296, 0.325247, 0.327135, 0.329045, 0.330978, 0.332843, 0.334731,
    0.336639, 0.33857, 0.340522, 0.342403, 0.344305, 0.346228, 0.348172, 0.35004, 0.352028,
    0.353937, 0.355765, 0.357715, 0.359687, 0.361575, 0.363483, 0.365412, 0.367252, 0.36922,
    0.371099, 0.372997, 0.374914, 0.376852, 0.378809, 0.38067, 0.382549, 0.384566, 0.386364,
    0.3883, 0.390256, 0.392107, 0.394101, 0.395989, 0.397895, 0.39982, 0.401763, 0.403594,
    0.405575, 0.407441, 0.409324, 0.411224, 0.413143, 0.415079, 0.417034, 0.419007, 0.420856,
    0.422721, 0.424749, 0.426649, 0.428566, 0.430351, 0.432302, 0.43427, 0.436103, 0.438107,
    0.439972, 0.441854, 0.443752, 0.445666, 0.447596, 0.449544, 0.451508, 0.453324, 0.455322,
    0.457169, 0.459031, 0.461079, 0.462973, 0.464883, 0.466808, 0.468749, 0.470528, 0.472501,
    0.47449, 0.476313, 0.47815, 0.480187, 0.482054, 0.483935, 0.485831, 0.487743, 0.489669,
    0.491611, 0.493568, 0.49554, 0.497329, 0.499332, 0.501149, 0.503183, 0.505027, 0.506885,
    0.508757, 0.510854, 0.512755, 0.514671, 0.518329, 0.520286, 0.522259, 0.524246, 0.526025,
    0.528042, 0.529847, 0.533724, 0.535569, 0.537426, 0.539531, 0.543314, 0.545225, 0.54715,
    0.549088, 0.55276, 0.554739, 0.556732, 0.558487, 0.562287, 0.564334, 0.566138, 0.570042,
    0.571883, 0.575867, 0.577745, 0.579636, 0.583455, 0.585383, 0.589278, 0.590964, 0.594934,
    0.596939, 0.600699, 0.60245, 0.60628, 0.608362, 0.612268, 0.614087, 0.617759, 0.619921,
    0.623036, 0.626183, 0.629361, 0.632572, 0.635816, 0.639094, 0.642405, 0.645751, 0.649132,
    0.652548, 0.656001, 0.65949, 0.663017, 0.666582, 0.670185, 0.673827, 0.677509, 0.681232,
    0.684995, 0.688801, 0.692649, 0.69654, 0.700476, 0.704456, 0.708481, 0.712553, 0.716672,
    0.720838, 0.725054, 0.729319, 0.733634, 0.738001, 0.74242, 0.746893, 0.751419, 0.756001,
    0.760639, 0.765334, 0.770088, 0.774901, 0.779775, 0.78471, 0.789708, 0.79477, 0.799898,
    0.805092, 0.810354, 0.815685, 0.821087, 0.826561, 0.832109, 0.837731, 0.84343, 0.849207,
    0.855063, 0.861001, 0.867022, 0.918401, 0.925255, 0.932212, 0.939274, 0.946444, 0.953724,
    0.961118, 0.968626, 0.976253, 0.984001, 0.991873, 0.999872, 1.008, 1.01626, 1.02466, 1.0332,
    1.04188, 1.05071, 1.05969, 1.06883, 1.07812, 1.08758, 1.09721, 1.107, 1.11697, 1.12713,
    1.13747, 1.148, 1.15873, 1.16966, 1.1808, 1.19216, 1.20373, 1.21553, 1.22757, 1.23984,
    1.25237, 1.26514, 1.27819, 1.2915, 1.3051, 1.31898, 1.33316, 1.34765, 1.36246, 1.3776,
    1.39308, 1.40891, 1.42511, 1.44168, 1.45864, 1.476, 1.49379, 1.512, 1.53067, 1.5498, 1.56942,
    1.58954, 1.61018, 1.63137, 1.65312, 1.67546, 1.69841, 1.722, 1.74626, 1.7712, 1.79687, 1.8233,
    1.85051, 1.87855, 1.90745, 1.93725, 1.968, 1.99974, 2.03253, 2.0664, 2.10143, 2.13766,
    2.17516, 2.214, 2.25426, 2.296, 2.33932, 2.38431, 2.43106, 2.47968, 2.53029, 2.583, 2.63796,
    2.69531, 2.7552, 2.81782, 2.88335, 2.952, 3.024, 3.0996, 3.17908, 3.26274, 3.35092, 3.444,
    3.54241, 3.64659, 3.7571, 3.87451, 3.99949, 4.13281]"

definition ndata_Au :: "real list" where
  "ndata_Au =
    [42.79, 40.92, 39.16, 37.49, 35.91, 34.41, 33, 31.66, 30.39, 29.19, 28.05, 26.97, 25.94, 24.97,
    24.04, 23.17, 22.33, 21.54, 20.78, 20.06, 19.38, 18.72, 18.1, 17.51, 16.94, 16.4, 15.88,
    15.38, 14.91, 14.46, 14.02, 13.61, 13.21, 12.83, 12.46, 12.11, 11.77, 11.45, 11.14, 10.84,
    10.55, 10.27, 10.01, 9.749, 9.502, 9.263, 9.034, 8.812, 8.598, 8.392, 8.193, 8, 7.814, 7.634,
    7.461, 7.293, 7.13, 6.973, 6.82, 6.673, 6.53, 6.392, 6.258, 6.127, 6.001, 5.879, 5.76, 5.645,
    5.533, 5.424, 5.319, 5.216, 5.117, 5.02, 4.926, 4.834, 4.745, 4.658, 4.574, 4.492, 4.412,
    4.334, 4.258, 4.184, 4.112, 4.042, 3.973, 3.906, 3.841, 3.778, 3.716, 3.655, 3.596, 3.539,
    3.482, 3.427, 3.374, 3.321, 3.27, 3.22, 3.171, 3.123, 3.077, 3.031, 2.986, 2.942, 2.899,
    2.858, 2.817, 2.776, 2.737, 2.699, 2.661, 2.624, 2.588, 2.553, 2.518, 2.484, 2.451, 2.418,
    2.386, 2.355, 2.324, 2.294, 2.264, 2.235, 2.207, 2.179, 2.152, 2.125, 2.098, 2.072, 2.047,
    2.022, 1.998, 1.974, 1.95, 1.927, 1.904, 1.881, 1.859, 1.838, 1.817, 1.796, 1.775, 1.755,
    1.735, 1.716, 1.697, 1.678, 1.659, 1.641, 1.623, 1.605, 1.588, 1.571, 1.554, 1.538, 1.521,
    1.505, 1.49, 1.474, 1.459, 1.444, 1.429, 1.414, 1.4, 1.386, 1.372, 1.358, 1.345, 1.331, 1.318,
    1.305, 1.293, 1.28, 1.268, 1.256, 1.244, 1.232, 1.22, 1.209, 1.197, 1.186, 1.175, 1.164,
    1.153, 1.143, 1.132, 1.122, 1.112, 1.102, 1.092, 1.082, 1.073, 1.063, 1.054, 1.045, 1.036,
    1.027, 1.018, 1.009, 1, 0.9919, 0.9835, 0.9752, 0.967, 0.9589, 0.9509, 0.943, 0.9352, 0.9275,
    0.9199, 0.9123, 0.9049, 0.8976, 0.8904, 0.8832, 0.8761, 0.8692, 0.8623, 0.8554, 0.8487,
    0.8421, 0.8355, 0.829, 0.8226, 0.8162, 0.8099, 0.8037, 0.7976, 0.7916, 0.7856, 0.7797, 0.7738,
    0.768, 0.7623, 0.7566, 0.7511, 0.7455, 0.7401, 0.7347, 0.7293, 0.724, 0.7136, 0.7085, 0.7034,
    0.6984, 0.6935, 0.6886, 0.6837, 0.6742, 0.6695, 0.6649, 0.6603, 0.6512, 0.6468, 0.6423, 0.638,
    0.6294, 0.6252, 0.621, 0.6168, 0.6087, 0.6047, 0.6007, 0.5929, 0.589, 0.5814, 0.5776, 0.5739,
    0.5666, 0.563, 0.5559, 0.5524, 0.5455, 0.5421, 0.5354, 0.5321, 0.5256, 0.5224, 0.516, 0.5129,
    0.5068, 0.5031, 0.4989, 0.4942, 0.4896, 0.4851, 0.4805, 0.476, 0.4715, 0.4671, 0.4627, 0.4583,
    0.454, 0.4497, 0.4454, 0.4412, 0.4369, 0.4328, 0.4286, 0.4245, 0.4204, 0.4163, 0.4123, 0.4082,
    0.4042, 0.4003, 0.3963, 0.3924, 0.3885, 0.3847, 0.3808, 0.377, 0.3732, 0.3695, 0.3657, 0.362,
    0.3583, 0.3546, 0.351, 0.3474, 0.3437, 0.3402, 0.3366, 0.3331, 0.3295, 0.326, 0.3226, 0.3191,
    0.3157, 0.3123, 0.3089, 0.3055, 0.3021, 0.2988, 0.2955, 0.2922, 0.2889, 0.2857, 0.2824,
    0.2551, 0.252, 0.249, 0.246, 0.243, 0.24, 0.2371, 0.2342, 0.2313, 0.2281, 0.225, 0.2218,
    0.2187, 0.2157, 0.2126, 0.2096, 0.2066, 0.2036, 0.2007, 0.1978, 0.1949, 0.1921, 0.1893,
    0.1865, 0.1837, 0.181, 0.1783, 0.1757, 0.1731, 0.1705, 0.168, 0.1655, 0.163, 0.1606, 0.1582,
    0.1559, 0.1536, 0.1514, 0.1493, 0.1471, 0.1451, 0.1431, 0.1412, 0.1393, 0.1375, 0.1358,
    0.1342, 0.1326, 0.1312, 0.1298, 0.1286, 0.1275, 0.1265, 0.1256, 0.1249, 0.1244, 0.124, 0.1239,
    0.1239, 0.1242, 0.1248, 0.1257, 0.1268, 0.1284, 0.1304, 0.1328, 0.1358, 0.1394, 0.1436,
    0.1487, 0.1546, 0.1616, 0.1698, 0.1794, 0.1908, 0.2041, 0.2199, 0.2388, 0.2617, 0.2899,
    0.3256, 0.3724, 0.4363, 0.5263, 0.6527, 0.8197, 1.011, 1.193, 1.333, 1.422, 1.472, 1.505,
    1.537, 1.567, 1.585, 1.588, 1.585, 1.588, 1.606, 1.637, 1.671, 1.695, 1.701, 1.685, 1.649,
    1.596]"

definition kdata_Au :: "real list" where
  "kdata_Au =
    [137.5, 133.9, 130.4, 127.1, 124, 121, 118.2, 115.5, 112.9, 110.4, 108.1, 105.8, 103.6, 101.5,
    99.47, 97.52, 95.64, 93.83, 92.08, 90.39, 88.76, 87.18, 85.66, 84.18, 82.76, 81.37, 80.03,
    78.73, 77.47, 76.25, 75.07, 73.91, 72.8, 71.71, 70.65, 69.63, 68.63, 67.65, 66.71, 65.78,
    64.89, 64.01, 63.16, 62.33, 61.52, 60.73, 59.96, 59.2, 58.47, 57.75, 57.05, 56.37, 55.7,
    55.04, 54.4, 53.78, 53.17, 52.57, 51.98, 51.41, 50.85, 50.3, 49.76, 49.24, 48.72, 48.21,
    47.72, 47.23, 46.76, 46.29, 45.83, 45.38, 44.94, 44.51, 44.08, 43.67, 43.26, 42.85, 42.46,
    42.07, 41.69, 41.32, 40.95, 40.59, 40.23, 39.88, 39.54, 39.2, 38.87, 38.54, 38.22, 37.9,
    37.59, 37.29, 36.98, 36.69, 36.4, 36.11, 35.82, 35.55, 35.27, 35, 34.73, 34.47, 34.21, 33.96,
    33.71, 33.46, 33.21, 32.97, 32.74, 32.5, 32.27, 32.04, 31.82, 31.6, 31.38, 31.16, 30.95,
    30.74, 30.53, 30.33, 30.13, 29.93, 29.73, 29.54, 29.34, 29.15, 28.97, 28.78, 28.6, 28.42,
    28.24, 28.07, 27.89, 27.72, 27.55, 27.38, 27.22, 27.06, 26.89, 26.73, 26.58, 26.42, 26.27,
    26.11, 25.96, 25.81, 25.67, 25.52, 25.38, 25.23, 25.09, 24.95, 24.81, 24.68, 24.54, 24.41,
    24.28, 24.14, 24.01, 23.89, 23.76, 23.63, 23.51, 23.39, 23.26, 23.14, 23.02, 22.91, 22.79,
    22.67, 22.56, 22.45, 22.33, 22.22, 22.11, 22, 21.89, 21.79, 21.68, 21.57, 21.47, 21.37, 21.26,
    21.16, 21.06, 20.96, 20.86, 20.77, 20.67, 20.57, 20.48, 20.38, 20.29, 20.2, 20.11, 20.02,
    19.93, 19.84, 19.75, 19.66, 19.57, 19.49, 19.4, 19.32, 19.23, 19.15, 19.06, 18.98, 18.9,
    18.82, 18.74, 18.66, 18.58, 18.5, 18.43, 18.35, 18.27, 18.2, 18.12, 18.05, 17.97, 17.9, 17.83,
    17.75, 17.68, 17.61, 17.54, 17.47, 17.4, 17.33, 17.26, 17.2, 17.13, 17.06, 17, 16.93, 16.86,
    16.8, 16.73, 16.67, 16.61, 16.54, 16.42, 16.36, 16.3, 16.24, 16.17, 16.11, 16.06, 15.94,
    15.88, 15.82, 15.76, 15.65, 15.59, 15.54, 15.48, 15.37, 15.32, 15.26, 15.21, 15.1, 15.05, 15,
    14.89, 14.84, 14.74, 14.69, 14.64, 14.54, 14.49, 14.39, 14.35, 14.25, 14.2, 14.11, 14.06,
    13.97, 13.93, 13.84, 13.79, 13.7, 13.65, 13.59, 13.52, 13.46, 13.39, 13.32, 13.25, 13.19,
    13.12, 13.05, 12.99, 12.92, 12.85, 12.78, 12.72, 12.65, 12.58, 12.52, 12.45, 12.38, 12.31,
    12.25, 12.18, 12.11, 12.04, 11.98, 11.91, 11.84, 11.77, 11.71, 11.64, 11.57, 11.5, 11.44,
    11.37, 11.3, 11.23, 11.16, 11.1, 11.03, 10.96, 10.89, 10.82, 10.76, 10.69, 10.62, 10.55,
    10.48, 10.41, 10.35, 10.28, 10.21, 10.14, 10.07, 10, 9.934, 9.865, 9.796, 9.214, 9.145, 9.075,
    9.005, 8.935, 8.865, 8.795, 8.725, 8.655, 8.581, 8.506, 8.432, 8.358, 8.283, 8.208, 8.134,
    8.059, 7.984, 7.909, 7.834, 7.759, 7.683, 7.608, 7.532, 7.456, 7.38, 7.304, 7.228, 7.152,
    7.075, 6.999, 6.922, 6.845, 6.768, 6.69, 6.613, 6.535, 6.457, 6.379, 6.301, 6.222, 6.143,
    6.064, 5.985, 5.905, 5.825, 5.745, 5.664, 5.583, 5.501, 5.42, 5.338, 5.255, 5.172, 5.088,
    5.004, 4.92, 4.834, 4.749, 4.662, 4.575, 4.487, 4.398, 4.308, 4.217, 4.126, 4.033, 3.938,
    3.843, 3.746, 3.647, 3.547, 3.444, 3.34, 3.232, 3.122, 3.009, 2.891, 2.769, 2.641, 2.507,
    2.364, 2.213, 2.058, 1.908, 1.787, 1.72, 1.716, 1.758, 1.812, 1.855, 1.877, 1.887, 1.898,
    1.911, 1.915, 1.904, 1.877, 1.846, 1.825, 1.821, 1.835, 1.858, 1.881, 1.895, 1.888]"
definition IRE :: complex where
  "IRE = Complex 1 0"

definition IIM :: complex where
  "IIM = Complex 0 1"

text \<open>
  The bodies of \<open>epsAg\<close> and \<open>epsAu\<close> are the same text up to the table and the message:
  the photon energy, the range test, the two interpolations, the permittivity
  \<open>IRE*(n_val*n_val - k_val*k_val) + IIM*2.0*n_val*k_val\<close>. The range test is the source's
  \<open>(omega < energy[0]) && (omega > energy[num - 1])\<close>; its two reads are inside the
  tables, which have \<open>num\<close> entries. The quotient \<open>1239.8/lambda\<close> is the program's for
  \<open>lambda \<noteq> 0\<close>.
\<close>

definition eps_table ::
  "int \<Rightarrow> real list \<Rightarrow> real list \<Rightarrow> real list \<Rightarrow> real \<Rightarrow> fault + complex" where
  "eps_table num energy ndata kdata lambda =
     (let omega = 1239.8 / lambda in
      if omega < energy ! 0 \<and> omega > energy ! nat (num - 1) then Inl OutOfRange
      else
        and_then (interpolate num energy ndata omega) (\<lambda>n_val.
        and_then (interpolate num energy kdata omega) (\<lambda>k_val.
          Inr (IRE * of_real (n_val * n_val - k_val * k_val)
               + IIM * 2 * of_real n_val * of_real k_val))))"

definition epsAg :: "real \<Rightarrow> fault + complex" where
  "epsAg lambda = eps_table num_Ag energy_Ag ndata_Ag kdata_Ag lambda"

definition epsAu :: "real \<Rightarrow> fault + complex" where
  "epsAu lambda = eps_table num_Au energy_Au ndata_Au kdata_Au lambda"

text \<open>
  The size-dependent dielectric functions. The local constants keep their names; the
  literals \<open>1.39e8\<close>, \<open>5.2e-6\<close>, \<open>6.582e-16\<close>, \<open>1.0e7\<close> are written with powers of ten.
  The model is the source's expression for \<open>lambda \<noteq> 0\<close> and \<open>D \<noteq> 0\<close>.
\<close>

definition epsAgSD :: "real \<Rightarrow> real \<Rightarrow> fault + complex" where
  "epsAgSD lambda D =
     (let vF = 1.39 * 10 ^ 8;
          lam_inf = 5.2 / 10 ^ 6;
          omega_p = 9.1;
          A = 2.5;
          h_bar = 6.582 / 10 ^ 16;
          gam_inf = h_bar * vF / lam_inf;
          gam_r = gam_inf + A * h_bar * vF * 10 ^ 7 * (2 / D);
          omega = 1239.8 / lambda
      in and_then (epsAg lambda) (\<lambda>e.
           Inr (e + of_real (omega_p * omega_p)
                  * (IRE / (IRE * of_real omega * of_real omega + IIM * of_real omega * of_real gam_inf)
                     - IRE / (IRE * of_real omega * of_real omega + IIM * of_real omega * of_real gam_r)))))"

definition epsAuSD :: "real \<Rightarrow> real \<Rightarrow> fault + complex" where
  "epsAuSD lambda D =
     (let vF = 1.38 * 10 ^ 8;
          lam_inf = 1.28 / 10 ^ 6;
          omega_p = 9.0;
          A = 2.0;
          h_bar = 6.582 / 10 ^ 16;
          gam_inf = h_bar * vF / lam_inf;
          gam_r = gam_inf + A * h_bar * vF * 10 ^ 7 * (2 / D);
          omega = 1239.8 / lambda
      in and_then (epsAu lambda) (\<lambda>e.
           Inr (e + of_real (omega_p * omega_p)
                  * (IRE / (IRE * of_real omega * of_real omega + IIM * of_real omega * of_real gam_inf)
                     - IRE / (IRE * of_real omega * of_real omega + IIM * of_real omega * of_real gam_r)))))"

subsection \<open>Diameter of the sphere of the same volume\<close>

definition diameter :: "real \<Rightarrow> real \<Rightarrow> real" where
  "diameter L H = 2 * (3 * sqrt 3 * L * L * H / (16 * pi)) powr (1 / 3)"

subsection \<open>The analytical model\<close>

text \<open>
  \<open>dipPolariz\<close>, \<open>scatCSdip\<close> and \<open>extCSdip\<close>, with the source's association of the
  products and quotients. \<open>std::pow(k, 4)\<close> and \<open>std::pow(std::abs(polariz), 2)\<close> have
  integer exponents and are powers; \<open>1.0e-14\<close> is \<open>1 / 10 ^ 14\<close>.
\<close>

definition dipPolariz :: "real \<Rightarrow> complex \<Rightarrow> real \<Rightarrow> real \<Rightarrow> real \<Rightarrow> real \<Rightarrow> complex" where
  "dipPolariz lambda eps_m eps_h L H R =
     (let beta = - 0.649487 * (L / H) powr (- 1.27802) + 1.87718 * (L / R) powr (- 0.928178)
                 + 0.0784606 * (H / R) powr (- 0.619604) + 0.617065;
          eps_c = - 1.73983 * (L / H) powr 0.904851 + 23.7005 * (L / R) powr (- 9.71985)
                  + 3.73666 * (H / R) powr (- 0.416187) - 4.23387;
          a2 = 1.35181 * (L / H) powr (- 0.556507) + 1.13818 * (L / R) powr (- 0.483608)
               - 0.287856 * (H / R) powr (- 0.468685) - 0.0564038;
          a4 = - 2.58813 * (L / H) powr (- 0.447242) - 2.62882 * (L / R) powr (- 2.97322)
               - 0.254773 * (H / R) powr (- 0.125501) + 0.702526;
          s = sqrt eps_h * L / lambda;
          V0 = 0.25 * sqrt 3 * L * L * H;
          V1 = V0 * beta;
          Arc = IRE * of_real s * of_real s * of_real a2
                + 4 * of_real pi * of_real pi * IIM * of_real V1 * of_real s * of_real s * of_real s
                  / of_real (3 * L * L * L)
                + IRE * of_real s * of_real s * of_real s * of_real s * of_real a4
      in of_real ((1 / (4 * pi)) * V1)
         / (IRE / (eps_m / of_real eps_h - IRE) - IRE / of_real (eps_c - 1) - Arc))"

definition scatCSdip :: "real \<Rightarrow> complex \<Rightarrow> real \<Rightarrow> real \<Rightarrow> real \<Rightarrow> real \<Rightarrow> real" where
  "scatCSdip lambda eps_m eps_h L H R =
     (let polariz = dipPolariz lambda eps_m eps_h L H R;
          k = 2 * pi * sqrt eps_h / lambda
      in 8 * pi * k ^ 4 * (cmod polariz) ^ 2 * (1 / 10 ^ 14) / 3)"

definition extCSdip :: "real \<Rightarrow> complex \<Rightarrow> real \<Rightarrow> real \<Rightarrow> real \<Rightarrow> real \<Rightarrow> real" where
  "extCSdip lambda eps_m eps_h L H R =
     (let polariz = dipPolariz lambda eps_m eps_h L H R;
          k = 2 * pi * sqrt eps_h / lambda
      in 4 * pi * k * Im polariz * (1 / 10 ^ 14))"

text \<open>
  For positive \<open>lambda\<close>, \<open>eps_h\<close>, \<open>L\<close>, \<open>H\<close> and \<open>R\<close> three divisors of \<open>dipPolariz\<close> can
  still be zero: \<open>eps_m/eps_h - IRE\<close>, \<open>eps_c - 1.0\<close> and the denominator of the returned
  quotient. The program then divides by zero and its result is built from infinities and
  NaNs; the quotient of the model is not that result. \<open>dipPolariz_defined\<close> says that none
  of the three is zero; it is a hypothesis of every theorem about the value of
  \<open>dipPolariz\<close> on all inputs.
\<close>

definition dipPolariz_defined :: "real \<Rightarrow> complex \<Rightarrow> real \<Rightarrow> real \<Rightarrow> real \<Rightarrow> real \<Rightarrow> bool" where
  "dipPolariz_defined lambda eps_m eps_h L H R =
     (let beta = - 0.649487 * (L / H) powr (- 1.27802) + 1.87718 * (L / R) powr (- 0.928178)
                 + 0.0784606 * (H / R) powr (- 0.619604) + 0.617065;
          eps_c = - 1.73983 * (L / H) powr 0.904851 + 23.7005 * (L / R) powr (- 9.71985)
                  + 3.73666 * (H / R) powr (- 0.416187) - 4.23387;
          a2 = 1.35181 * (L / H) powr (- 0.556507) + 1.13818 * (L / R) powr (- 0.483608)
               - 0.287856 * (H / R) powr (- 0.468685) - 0.0564038;
          a4 = - 2.58813 * (L / H) powr (- 0.447242) - 2.62882 * (L / R) powr (- 2.97322)
               - 0.254773 * (H / R) powr (- 0.125501) + 0.702526;
          s = sqrt eps_h * L / lambda;
          V0 = 0.25 * sqrt 3 * L * L * H;
          V1 = V0 * beta;
          Arc = IRE * of_real s * of_real s * of_real a2
                + 4 * of_real pi * of_real pi * IIM * of_real V1 * of_real s * of_real s * of_real s
                  / of_real (3 * L * L * L)
                + IRE * of_real s * of_real s * of_real s * of_real s * of_real a4
      in eps_m / of_real eps_h - IRE \<noteq> 0
         \<and> eps_c - 1 \<noteq> 0
         \<and> IRE / (eps_m / of_real eps_h - IRE) - IRE / of_real (eps_c - 1) - Arc \<noteq> 0)"

section \<open>The dielectric functions on binary64 values\<close>

text \<open>
  A second model of \<open>interpolate\<close>, \<open>epsAg\<close>, \<open>epsAu\<close>, \<open>epsAgSD\<close> and \<open>epsAuSD\<close>, for
  the properties that depend on rounding and overflow. A \<open>double\<close> is a finite number, an
  infinity or a NaN; every operation of the source rounds its exact result to the nearest
  \<open>double\<close>, ties to the even significand, and yields an infinity beyond the largest
  \<open>double\<close> (IEEE 754, binary64: 53 significant bits, exponents from \<open>-1022\<close> to \<open>1023\<close>,
  subnormal numbers that are multiples of \<open>2 powr (- 1074)\<close>). The two zeros are one value
  \<open>Fin 0\<close>, taken as \<open>+0\<close> where it divides. Each operation rounds once: there is no fused
  multiply-add and no intermediate of a wider format. The functions of this section keep
  the names of the source with the suffix \<open>_d\<close>.
\<close>

subsection \<open>Values and rounding\<close>

datatype dbl = Fin real | PInf | NInf | NaN

text \<open>Rounding of a real number to the nearest integer, a tie to the even one.\<close>

definition rne :: "real \<Rightarrow> int" where
  "rne x =
     (let f = \<lfloor>x\<rfloor> in
      if x - of_int f < 1 / 2 then f
      else if 1 / 2 < x - of_int f then f + 1
      else if even f then f else f + 1)"

text \<open>
  The exponent of the last bit of the significand of a \<open>double\<close> near \<open>x\<close>: 52 below the
  exponent of \<open>x\<close>, and \<open>-1074\<close> in the subnormal range.
\<close>

definition ulp_exp :: "real \<Rightarrow> int" where
  "ulp_exp x = max (\<lfloor>log 2 \<bar>x\<bar>\<rfloor> - 52) (- 1074)"

text \<open>The \<open>double\<close> that an exact result rounds to.\<close>

definition to_double :: "real \<Rightarrow> dbl" where
  "to_double x =
     (if x = 0 then Fin 0
      else
        let u = 2 powr of_int (ulp_exp x);
            r = u * of_int (rne (x / u))
        in if 2 ^ 1024 \<le> r then PInf else if r \<le> - (2 ^ 1024) then NInf else Fin r)"

subsection \<open>Operations\<close>

fun dneg :: "dbl \<Rightarrow> dbl" where
  "dneg (Fin a) = Fin (- a)"
| "dneg PInf = NInf"
| "dneg NInf = PInf"
| "dneg NaN = NaN"

fun dadd :: "dbl \<Rightarrow> dbl \<Rightarrow> dbl" where
  "dadd (Fin a) (Fin b) = to_double (a + b)"
| "dadd NaN y = NaN"
| "dadd x NaN = NaN"
| "dadd PInf NInf = NaN"
| "dadd NInf PInf = NaN"
| "dadd PInf y = PInf"
| "dadd NInf y = NInf"
| "dadd (Fin a) y = y"

definition dsub :: "dbl \<Rightarrow> dbl \<Rightarrow> dbl" where
  "dsub x y = dadd x (dneg y)"

text \<open>
  The sign of a value, and the result of an operation with an infinite operand or a zero
  divisor from the sign it must have: a NaN for an infinity times zero and for \<open>0 / 0\<close>.
\<close>

fun dsgn :: "dbl \<Rightarrow> real" where
  "dsgn (Fin a) = sgn a"
| "dsgn PInf = 1"
| "dsgn NInf = - 1"
| "dsgn NaN = 0"

definition signed_inf :: "real \<Rightarrow> dbl" where
  "signed_inf s = (if s = 0 then NaN else if 0 < s then PInf else NInf)"

fun dmul :: "dbl \<Rightarrow> dbl \<Rightarrow> dbl" where
  "dmul (Fin a) (Fin b) = to_double (a * b)"
| "dmul NaN y = NaN"
| "dmul x NaN = NaN"
| "dmul x y = signed_inf (dsgn x * dsgn y)"

fun ddiv :: "dbl \<Rightarrow> dbl \<Rightarrow> dbl" where
  "ddiv (Fin a) (Fin b) = (if b = 0 then signed_inf a else to_double (a / b))"
| "ddiv NaN y = NaN"
| "ddiv x NaN = NaN"
| "ddiv (Fin a) y = Fin 0"
| "ddiv x (Fin b) = (if b < 0 then dneg x else x)"
| "ddiv x y = NaN"

text \<open>The comparison \<open><\<close>, false when an operand is a NaN.\<close>

fun dless :: "dbl \<Rightarrow> dbl \<Rightarrow> bool" where
  "dless (Fin a) (Fin b) = (a < b)"
| "dless NaN y = False"
| "dless x NaN = False"
| "dless x NInf = False"
| "dless PInf y = False"
| "dless NInf y = True"
| "dless (Fin a) PInf = True"

text \<open>
  \<open>std::complex<double>\<close> is a pair of doubles. Sum and difference are componentwise; the
  product of a complex number and a \<open>double\<close> multiplies each component by the \<open>double\<close>.
  The quotient of two complex numbers is computed by the library, whose algorithm the
  source does not fix; it is taken here as
  \<open>(a + ib)/(c + id) = ((ac + bd) + i(bc - ad))/(c\<^sup>2 + d\<^sup>2)\<close>, operation by operation.
  It is used below for one divisor, of real part between 3 and 10 and imaginary part
  between 0.03 and 0.06, and for the fact that equal operands have equal quotients.
\<close>

type_synonym cdbl = "dbl \<times> dbl"

definition cadd :: "cdbl \<Rightarrow> cdbl \<Rightarrow> cdbl" where
  "cadd z w = (dadd (fst z) (fst w), dadd (snd z) (snd w))"

definition csub :: "cdbl \<Rightarrow> cdbl \<Rightarrow> cdbl" where
  "csub z w = (dsub (fst z) (fst w), dsub (snd z) (snd w))"

definition cscale :: "cdbl \<Rightarrow> dbl \<Rightarrow> cdbl" where
  "cscale z y = (dmul (fst z) y, dmul (snd z) y)"

definition cdiv :: "cdbl \<Rightarrow> cdbl \<Rightarrow> cdbl" where
  "cdiv z w =
     (let a = fst z; b = snd z; c = fst w; d = snd w;
          m = dadd (dmul c c) (dmul d d)
      in (ddiv (dadd (dmul a c) (dmul b d)) m, ddiv (dsub (dmul b c) (dmul a d)) m))"

definition IRE_d :: cdbl where
  "IRE_d = (Fin 1, Fin 0)"

definition IIM_d :: cdbl where
  "IIM_d = (Fin 0, Fin 1)"

subsection \<open>Interpolation procedure, on doubles\<close>

definition rd_d :: "dbl list \<Rightarrow> int \<Rightarrow> fault + dbl" where
  "rd_d a k = (if 0 \<le> k \<and> k < int (length a) then Inr (a ! nat k) else Inl OutOfBounds)"

function scan_d :: "int \<Rightarrow> dbl list \<Rightarrow> dbl \<Rightarrow> int \<Rightarrow> int \<Rightarrow> bool \<Rightarrow> fault + int" where
  "scan_d n x_arr x_val j i flag =
     (if j < n then
        (if flag then
           (case rd_d x_arr j of
              Inl e \<Rightarrow> Inl e
            | Inr xj \<Rightarrow>
                if dless x_val xj then scan_d n x_arr x_val (j + 1) (j - 1) False
                else scan_d n x_arr x_val (j + 1) i flag)
         else scan_d n x_arr x_val (j + 1) i flag)
      else Inr i)"
  by pat_completeness auto
termination
  by (relation "measure (\<lambda>(n, x_arr, x_val, j, i, flag). nat (n - j))") auto

declare scan_d.simps [simp del]

definition window_d :: "dbl list \<Rightarrow> int \<Rightarrow> fault + dbl \<times> dbl \<times> dbl \<times> dbl" where
  "window_d a i =
     and_then (rd_d a (i - 1)) (\<lambda>a0.
     and_then (rd_d a i) (\<lambda>a1.
     and_then (rd_d a (i + 1)) (\<lambda>a2.
     and_then (rd_d a (i + 2)) (\<lambda>a3. Inr (a0, a1, a2, a3)))))"

text \<open>
  The returned expression with the source's association: each product from the left, the
  quotient of each term, the sum of the four terms from the left.
\<close>

definition lagrange4_d ::
  "dbl \<times> dbl \<times> dbl \<times> dbl \<Rightarrow> dbl \<times> dbl \<times> dbl \<times> dbl \<Rightarrow> dbl \<Rightarrow> dbl" where
  "lagrange4_d x y x_val =
     (let (x0, x1, x2, x3) = x; (y0, y1, y2, y3) = y in
      dadd (dadd (dadd
        (ddiv (dmul (dmul (dmul (dsub x_val x1) (dsub x_val x2)) (dsub x_val x3)) y0)
              (dmul (dmul (dsub x0 x1) (dsub x0 x2)) (dsub x0 x3)))
        (ddiv (dmul (dmul (dmul (dsub x_val x0) (dsub x_val x2)) (dsub x_val x3)) y1)
              (dmul (dmul (dsub x1 x0) (dsub x1 x2)) (dsub x1 x3))))
        (ddiv (dmul (dmul (dmul (dsub x_val x0) (dsub x_val x1)) (dsub x_val x3)) y2)
              (dmul (dmul (dsub x2 x0) (dsub x2 x1)) (dsub x2 x3))))
        (ddiv (dmul (dmul (dmul (dsub x_val x0) (dsub x_val x1)) (dsub x_val x2)) y3)
              (dmul (dmul (dsub x3 x0) (dsub x3 x1)) (dsub x3 x2))))"

definition interpolate_d :: "int \<Rightarrow> dbl list \<Rightarrow> dbl list \<Rightarrow> dbl \<Rightarrow> fault + dbl" where
  "interpolate_d n x_arr y_arr x_val =
     and_then (scan_d n x_arr x_val 1 0 True) (\<lambda>i0.
       let i = clamp_index n i0 in
       and_then (window_d x_arr i) (\<lambda>x.
       and_then (window_d y_arr i) (\<lambda>y. Inr (lagrange4_d x y x_val))))"

subsection \<open>Dielectric functions of silver and gold, on doubles\<close>

text \<open>
  A decimal literal of the source is the \<open>double\<close> nearest to it, and so is every entry of
  the tables.
\<close>

definition eps_table_d ::
  "int \<Rightarrow> real list \<Rightarrow> real list \<Rightarrow> real list \<Rightarrow> dbl \<Rightarrow> fault + cdbl" where
  "eps_table_d num energy ndata kdata lambda =
     (let energy_d = map to_double energy;
          omega = ddiv (to_double 1239.8) lambda in
      if dless omega (energy_d ! 0) \<and> dless (energy_d ! nat (num - 1)) omega then Inl OutOfRange
      else
        and_then (interpolate_d num energy_d (map to_double ndata) omega) (\<lambda>n_val.
        and_then (interpolate_d num energy_d (map to_double kdata) omega) (\<lambda>k_val.
          Inr (cadd (cscale IRE_d (dsub (dmul n_val n_val) (dmul k_val k_val)))
                    (cscale (cscale (cscale IIM_d (to_double 2)) n_val) k_val)))))"

definition epsAg_d :: "dbl \<Rightarrow> fault + cdbl" where
  "epsAg_d lambda = eps_table_d num_Ag energy_Ag ndata_Ag kdata_Ag lambda"

definition epsAu_d :: "dbl \<Rightarrow> fault + cdbl" where
  "epsAu_d lambda = eps_table_d num_Au energy_Au ndata_Au kdata_Au lambda"

definition epsAgSD_d :: "dbl \<Rightarrow> dbl \<Rightarrow> fault + cdbl" where
  "epsAgSD_d lambda D =
     (let vF = to_double (1.39 * 10 ^ 8);
          lam_inf = to_double (5.2 / 10 ^ 6);
          omega_p = to_double 9.1;
          A = to_double 2.5;
          h_bar = to_double (6.582 / 10 ^ 16);
          gam_inf = ddiv (dmul h_bar vF) lam_inf;
          gam_r = dadd gam_inf
                    (dmul (dmul (dmul (dmul A h_bar) vF) (to_double (10 ^ 7))) (ddiv (to_double 2) D));
          omega = ddiv (to_double 1239.8) lambda
      in and_then (epsAg_d lambda) (\<lambda>e.
           Inr (cadd e
                  (cscale
                     (csub (cdiv IRE_d (cadd (cscale (cscale IRE_d omega) omega)
                                             (cscale (cscale IIM_d omega) gam_inf)))
                           (cdiv IRE_d (cadd (cscale (cscale IRE_d omega) omega)
                                             (cscale (cscale IIM_d omega) gam_r))))
                     (dmul omega_p omega_p)))))"

definition epsAuSD_d :: "dbl \<Rightarrow> dbl \<Rightarrow> fault + cdbl" where
  "epsAuSD_d lambda D =
     (let vF = to_double (1.38 * 10 ^ 8);
          lam_inf = to_double (1.28 / 10 ^ 6);
          omega_p = to_double 9.0;
          A = to_double 2.0;
          h_bar = to_double (6.582 / 10 ^ 16);
          gam_inf = ddiv (dmul h_bar vF) lam_inf;
          gam_r = dadd gam_inf
                    (dmul (dmul (dmul (dmul A h_bar) vF) (to_double (10 ^ 7))) (ddiv (to_double 2) D));
          omega = ddiv (to_double 1239.8) lambda
      in and_then (epsAu_d lambda) (\<lambda>e.
           Inr (cadd e
                  (cscale
                     (csub (cdiv IRE_d (cadd (cscale (cscale IRE_d omega) omega)
                                             (cscale (cscale IIM_d omega) gam_inf)))
                           (cdiv IRE_d (cadd (cscale (cscale IRE_d omega) omega)
                                             (cscale (cscale IIM_d omega) gam_r))))
                     (dmul omega_p omega_p)))))"

section \<open>The specification's formulas\<close>

text \<open>
  The definitions of this section are written from the specification's sentences, to be
  compared with the functions of the program.
\<close>

subsection \<open>Interpolator\<close>

text \<open>
  ``The largest index \<open>i\<close> such that \<open>x[i] \<le> x_val\<close>'', counted from 0; \<open>- 1\<close> when no
  sample is at or below the query, which the clamp then takes to 1.
\<close>

primrec largest_le :: "real list \<Rightarrow> real \<Rightarrow> int" where
  "largest_le [] v = - 1"
| "largest_le (x # xs) v =
     (let r = largest_le xs v in if 0 \<le> r then r + 1 else if x \<le> v then 0 else - 1)"

text \<open>``Clamp \<open>i\<close> to the range \<open>[1, N - 3]\<close>.''\<close>

definition spec_clamp :: "int \<Rightarrow> int \<Rightarrow> int" where
  "spec_clamp n i = max 1 (min (n - 3) i)"

text \<open>
  The cubic polynomial through four points in Lagrange form: each sample value times its
  basis polynomial.
\<close>

definition cubic4 ::
  "real \<times> real \<times> real \<times> real \<Rightarrow> real \<times> real \<times> real \<times> real \<Rightarrow> real \<Rightarrow> real" where
  "cubic4 x y t =
     (let (x0, x1, x2, x3) = x; (y0, y1, y2, y3) = y in
        y0 * ((t - x1) * (t - x2) * (t - x3)) / ((x0 - x1) * (x0 - x2) * (x0 - x3))
      + y1 * ((t - x0) * (t - x2) * (t - x3)) / ((x1 - x0) * (x1 - x2) * (x1 - x3))
      + y2 * ((t - x0) * (t - x1) * (t - x3)) / ((x2 - x0) * (x2 - x1) * (x2 - x3))
      + y3 * ((t - x0) * (t - x1) * (t - x2)) / ((x3 - x0) * (x3 - x1) * (x3 - x2)))"

text \<open>The four samples of the window \<open>{i - 1, i, i + 1, i + 2}\<close>.\<close>

definition samples :: "real list \<Rightarrow> int \<Rightarrow> real \<times> real \<times> real \<times> real" where
  "samples a i = (a ! nat (i - 1), a ! nat i, a ! nat (i + 1), a ! nat (i + 2))"

definition spec_interpolate :: "int \<Rightarrow> real list \<Rightarrow> real list \<Rightarrow> real \<Rightarrow> real" where
  "spec_interpolate n x_arr y_arr x_val =
     (let i = spec_clamp n (largest_le (take (nat n) x_arr) x_val)
      in cubic4 (samples x_arr i) (samples y_arr i) x_val)"

subsection \<open>Size correction\<close>

text \<open>
  The damping rates and the Drude correction. The Fermi velocity is given in cm/s and
  the diameter in nm, so the quotient \<open>v\<^sub>F / D\<close> needs the velocity in nm/s.
\<close>

definition nm_per_cm :: real where
  "nm_per_cm = 10 ^ 7"

definition spec_gamma_inf :: "real \<Rightarrow> real \<Rightarrow> real \<Rightarrow> real" where
  "spec_gamma_inf hbar vF l_inf = hbar * vF / l_inf"

definition spec_gamma_r :: "real \<Rightarrow> real \<Rightarrow> real \<Rightarrow> real \<Rightarrow> real \<Rightarrow> real" where
  "spec_gamma_r hbar vF l_inf A D =
     spec_gamma_inf hbar vF l_inf + A * hbar * (vF * nm_per_cm) * (2 / D)"

definition drude_term :: "real \<Rightarrow> real \<Rightarrow> complex" where
  "drude_term omega gam = 1 / (of_real (omega\<^sup>2) + \<i> * of_real omega * of_real gam)"

definition spec_size_correction ::
  "real \<Rightarrow> real \<Rightarrow> real \<Rightarrow> real \<Rightarrow> real \<Rightarrow> real \<Rightarrow> real \<Rightarrow> complex" where
  "spec_size_correction hbar vF l_inf omega_p A lambda D =
     (let omega = 1239.8 / lambda
      in of_real (omega_p\<^sup>2)
         * (drude_term omega (spec_gamma_inf hbar vF l_inf)
            - drude_term omega (spec_gamma_r hbar vF l_inf A D)))"

subsection \<open>Geometry\<close>

definition prism_volume :: "real \<Rightarrow> real \<Rightarrow> real" where
  "prism_volume L H = sqrt 3 / 4 * L\<^sup>2 * H"

definition sphere_volume :: "real \<Rightarrow> real" where
  "sphere_volume d = 4 / 3 * pi * (d / 2) ^ 3"

subsection \<open>Polarizability and cross sections\<close>

text \<open>
  A sum of three power-law terms in the ratios \<open>L/H\<close>, \<open>L/R\<close>, \<open>H/R\<close> and a constant term.
  The specification names the four fitted quantities \<open>\<beta>\<close>, \<open>\<epsilon>\<^sub>c\<close>, \<open>a\<^sub>2\<close>, \<open>a\<^sub>4\<close> and leaves
  their constants to the program; they are written here once more, term by term.
\<close>

definition power_law4 ::
  "real \<Rightarrow> real \<Rightarrow> real \<Rightarrow> real \<Rightarrow> real \<Rightarrow> real \<Rightarrow> real \<Rightarrow> real \<Rightarrow> real \<Rightarrow> real \<Rightarrow> real" where
  "power_law4 c1 e1 c2 e2 c3 e3 c0 L H R =
     c1 * (L / H) powr e1 + c2 * (L / R) powr e2 + c3 * (H / R) powr e3 + c0"

definition fit_beta :: "real \<Rightarrow> real \<Rightarrow> real \<Rightarrow> real" where
  "fit_beta L H R =
     power_law4 (- 0.649487) (- 1.27802) 1.87718 (- 0.928178) 0.0784606 (- 0.619604) 0.617065 L H R"

definition fit_eps_c :: "real \<Rightarrow> real \<Rightarrow> real \<Rightarrow> real" where
  "fit_eps_c L H R =
     power_law4 (- 1.73983) 0.904851 23.7005 (- 9.71985) 3.73666 (- 0.416187) (- 4.23387) L H R"

definition fit_a2 :: "real \<Rightarrow> real \<Rightarrow> real \<Rightarrow> real" where
  "fit_a2 L H R =
     power_law4 1.35181 (- 0.556507) 1.13818 (- 0.483608) (- 0.287856) (- 0.468685) (- 0.0564038) L H R"

definition fit_a4 :: "real \<Rightarrow> real \<Rightarrow> real \<Rightarrow> real" where
  "fit_a4 L H R =
     power_law4 (- 2.58813) (- 0.447242) (- 2.62882) (- 2.97322) (- 0.254773) (- 0.125501) 0.702526 L H R"

definition spec_s :: "real \<Rightarrow> real \<Rightarrow> real \<Rightarrow> real" where
  "spec_s lambda eps_h L = sqrt eps_h * L / lambda"

definition spec_V1 :: "real \<Rightarrow> real \<Rightarrow> real \<Rightarrow> real" where
  "spec_V1 L H R = prism_volume L H * fit_beta L H R"

definition spec_Arc :: "real \<Rightarrow> real \<Rightarrow> real \<Rightarrow> real \<Rightarrow> real \<Rightarrow> complex" where
  "spec_Arc lambda eps_h L H R =
     (let s = spec_s lambda eps_h L
      in of_real (s\<^sup>2 * fit_a2 L H R)
         + \<i> * of_real (4 * pi\<^sup>2 / 3 * (spec_V1 L H R / L ^ 3) * s ^ 3)
         + of_real (s ^ 4 * fit_a4 L H R))"

definition spec_alpha :: "real \<Rightarrow> complex \<Rightarrow> real \<Rightarrow> real \<Rightarrow> real \<Rightarrow> real \<Rightarrow> complex" where
  "spec_alpha lambda eps_m eps_h L H R =
     of_real (1 / (4 * pi) * spec_V1 L H R)
     / (1 / (eps_m / of_real eps_h - 1) - 1 / (of_real (fit_eps_c L H R) - 1)
        - spec_Arc lambda eps_h L H R)"

definition spec_k :: "real \<Rightarrow> real \<Rightarrow> real" where
  "spec_k lambda eps_h = 2 * pi * sqrt eps_h / lambda"

definition spec_scattering :: "real \<Rightarrow> real \<Rightarrow> complex \<Rightarrow> real" where
  "spec_scattering lambda eps_h alpha =
     8 * pi / 3 * (spec_k lambda eps_h) ^ 4 * (cmod alpha)\<^sup>2 * (1 / 10 ^ 14)"

definition spec_extinction :: "real \<Rightarrow> real \<Rightarrow> complex \<Rightarrow> real" where
  "spec_extinction lambda eps_h alpha =
     4 * pi * spec_k lambda eps_h * Im alpha * (1 / 10 ^ 14)"

section \<open>Sequencing and array reads\<close>

lemma and_then_Inr [simp]: "and_then (Inr v) f = f v"
  by (simp add: and_then_def)

lemma and_then_Inl [simp]: "and_then (Inl e) f = Inl e"
  by (simp add: and_then_def)

lemma rd_in_range: "0 \<le> k \<Longrightarrow> k < int (length a) \<Longrightarrow> rd a k = Inr (a ! nat k)"
  by (simp add: rd_def)

lemma window_in_range:
  "1 \<le> i \<Longrightarrow> i + 2 < int (length a) \<Longrightarrow> window a i = Inr (samples a i)"
  by (simp add: window_def samples_def rd_in_range)

section \<open>The search loop\<close>

text \<open>Once the flag is cleared the loop changes nothing.\<close>

lemma scan_no_flag: "scan n x_arr x_val j i False = Inr i"
proof (induction n x_arr x_val j i "False" rule: scan.induct)
  case (1 n x_arr x_val j i)
  then show ?case by (subst scan.simps) simp
qed

text \<open>
  With the flag set, the loop either finds no sample above the query from \<open>j\<close> on and
  keeps \<open>i\<close>, or returns the index before the first sample above the query.
\<close>

lemma scan_flag:
  assumes "0 \<le> j" and "n \<le> int (length x_arr)"
  shows "\<exists>r. scan n x_arr x_val j i True = Inr r \<and>
     ((r = i \<and> (\<forall>k. j \<le> k \<and> k < n \<longrightarrow> x_arr ! nat k \<le> x_val))
      \<or> (j \<le> r + 1 \<and> r + 1 < n \<and> x_val < x_arr ! nat (r + 1)
          \<and> (\<forall>k. j \<le> k \<and> k \<le> r \<longrightarrow> x_arr ! nat k \<le> x_val)))"
  using assms
proof (induction n x_arr x_val j i "True" rule: scan.induct)
  case (1 n x_arr x_val j i)
  show ?case
  proof (cases "j < n")
    case False
    then show ?thesis by (subst scan.simps) simp
  next
    case True
    then have rdj: "rd x_arr j = Inr (x_arr ! nat j)"
      using "1.prems" by (simp add: rd_in_range)
    show ?thesis
    proof (cases "x_arr ! nat j > x_val")
      case gt: True
      have "scan n x_arr x_val j i True = Inr (j - 1)"
        using True rdj gt by (subst scan.simps) (simp add: scan_no_flag)
      then show ?thesis using True gt by auto
    next
      case le: False
      have step: "scan n x_arr x_val j i True = scan n x_arr x_val (j + 1) i True"
        using True rdj le by (subst scan.simps) simp
      from "1.hyps"(2)[OF True _ rdj le] "1.prems"
      obtain r where r: "scan n x_arr x_val (j + 1) i True = Inr r"
        and d: "(r = i \<and> (\<forall>k. j + 1 \<le> k \<and> k < n \<longrightarrow> x_arr ! nat k \<le> x_val))
      \<or> (j + 1 \<le> r + 1 \<and> r + 1 < n \<and> x_val < x_arr ! nat (r + 1)
          \<and> (\<forall>k. j + 1 \<le> k \<and> k \<le> r \<longrightarrow> x_arr ! nat k \<le> x_val))"
        by auto
      have ext: "x_arr ! nat k \<le> x_val"
        if "j \<le> k" and "j + 1 \<le> k \<Longrightarrow> x_arr ! nat k \<le> x_val" for k
      proof (cases "k = j")
        case True
        then show ?thesis using le by simp
      next
        case False
        then show ?thesis using that by simp
      qed
      from d show ?thesis
      proof (elim disjE conjE)
        assume "r = i" and a: "\<forall>k. j + 1 \<le> k \<and> k < n \<longrightarrow> x_arr ! nat k \<le> x_val"
        have "\<forall>k. j \<le> k \<and> k < n \<longrightarrow> x_arr ! nat k \<le> x_val"
          using a ext by blast
        with r step \<open>r = i\<close> show ?thesis by simp
      next
        assume b: "j + 1 \<le> r + 1" "r + 1 < n" "x_val < x_arr ! nat (r + 1)"
          and a: "\<forall>k. j + 1 \<le> k \<and> k \<le> r \<longrightarrow> x_arr ! nat k \<le> x_val"
        have "\<forall>k. j \<le> k \<and> k \<le> r \<longrightarrow> x_arr ! nat k \<le> x_val"
          using a ext by blast
        with r step b show ?thesis by simp
      qed
    qed
  qed
qed

lemma clamp_index_bounds: "4 \<le> n \<Longrightarrow> 1 \<le> clamp_index n i0 \<and> clamp_index n i0 \<le> n - 3"
  by (simp add: clamp_index_def Let_def)

section \<open>The interpolation on a strictly increasing table\<close>

lemma lagrange4_increasing:
  "x0 < x1 \<Longrightarrow> x1 < x2 \<Longrightarrow> x2 < x3 \<Longrightarrow>
   lagrange4 (x0, x1, x2, x3) y t = Inr (cubic4 (x0, x1, x2, x3) y t)"
  by (cases y) (simp add: lagrange4_def cubic4_def mult.commute)

lemma nth_strict_mono:
  "sorted_wrt (<) (xs::real list) \<Longrightarrow> 0 \<le> a \<Longrightarrow> a < b \<Longrightarrow> b < int (length xs) \<Longrightarrow>
   xs ! nat a < xs ! nat b"
  by (simp add: sorted_wrt_nth_less)

lemma samples_increasing:
  assumes "sorted_wrt (<) (xs::real list)" and "1 \<le> i" and "i + 2 < int (length xs)"
  shows "lagrange4 (samples xs i) y t = Inr (cubic4 (samples xs i) y t)"
  unfolding samples_def using assms
  by (intro lagrange4_increasing nth_strict_mono) simp_all

text \<open>The result of \<open>interpolate\<close> on a strictly increasing table, in terms of the loop's result.\<close>

lemma interpolate_sorted:
  assumes "4 \<le> n" and "n \<le> int (length x_arr)" and "n \<le> int (length y_arr)"
    and "sorted_wrt (<) x_arr" and "scan n x_arr x_val 1 0 True = Inr r"
  shows "interpolate n x_arr y_arr x_val =
     Inr (cubic4 (samples x_arr (clamp_index n r)) (samples y_arr (clamp_index n r)) x_val)"
proof -
  have b: "1 \<le> clamp_index n r" "clamp_index n r \<le> n - 3"
    using clamp_index_bounds[OF assms(1)] by simp_all
  then have wx: "window x_arr (clamp_index n r) = Inr (samples x_arr (clamp_index n r))"
    and wy: "window y_arr (clamp_index n r) = Inr (samples y_arr (clamp_index n r))"
    using assms(2,3) by (simp_all add: window_in_range)
  have "lagrange4 (samples x_arr (clamp_index n r)) (samples y_arr (clamp_index n r)) x_val =
     Inr (cubic4 (samples x_arr (clamp_index n r)) (samples y_arr (clamp_index n r)) x_val)"
    using b assms(2,4) by (intro samples_increasing) simp_all
  then show ?thesis
    by (simp add: interpolate_def assms(5) Let_def wx wy)
qed

lemma interpolate_total:
  assumes "4 \<le> n" and "n \<le> int (length x_arr)" and "n \<le> int (length y_arr)"
    and "sorted_wrt (<) x_arr"
  shows "\<exists>v. interpolate n x_arr y_arr x_val = Inr v"
proof -
  obtain r where "scan n x_arr x_val 1 0 True = Inr r"
    using scan_flag[of 1 n x_arr x_val 0] assms(2) by auto
  then show ?thesis using interpolate_sorted[OF assms] by simp
qed

lemma largest_le_range: "- 1 \<le> largest_le xs v \<and> largest_le xs v < int (length xs)"
  by (induction xs) (auto simp: Let_def)

lemma largest_le_sample: "0 \<le> largest_le xs v \<Longrightarrow> xs ! nat (largest_le xs v) \<le> v"
proof (induction xs)
  case Nil
  then show ?case by simp
next
  case (Cons x xs)
  show ?case
  proof (cases "0 \<le> largest_le xs v")
    case True
    then show ?thesis using Cons.IH by (simp add: Let_def nat_add_distrib)
  next
    case False
    then show ?thesis using Cons.prems by (simp add: Let_def split: if_splits)
  qed
qed

lemma largest_le_above:
  "largest_le xs v < k \<Longrightarrow> k < int (length xs) \<Longrightarrow> v < xs ! nat k"
proof (induction xs arbitrary: k)
  case Nil
  then show ?case by simp
next
  case (Cons x xs)
  have lo: "- 1 \<le> largest_le xs v" using largest_le_range by simp
  show ?case
  proof (cases "k \<le> 0")
    case True
    then have "k = 0" "largest_le (x # xs) v = - 1"
      using Cons.prems(1) largest_le_range[of "x # xs" v] by auto
    then show ?thesis using lo by (auto simp: Let_def split: if_splits)
  next
    case False
    then have k: "nat k = Suc (nat (k - 1))" by simp
    have "largest_le xs v < k - 1"
      using Cons.prems(1) lo False by (auto simp: Let_def split: if_splits)
    then have "v < xs ! nat (k - 1)"
      using Cons.IH Cons.prems(2) by simp
    then show ?thesis by (simp add: k)
  qed
qed

lemma largest_le_unique:
  assumes "0 \<le> m" and "m < int (length xs)" and "xs ! nat m \<le> v"
    and "\<And>k. m < k \<Longrightarrow> k < int (length xs) \<Longrightarrow> v < xs ! nat k"
  shows "largest_le xs v = m"
proof (rule antisym)
  show "largest_le xs v \<le> m"
  proof (rule ccontr)
    assume "\<not> largest_le xs v \<le> m"
    then have gt: "m < largest_le xs v" by simp
    then have "v < xs ! nat (largest_le xs v)"
      using assms(4) largest_le_range[of xs v] by simp
    moreover have "xs ! nat (largest_le xs v) \<le> v"
      using gt assms(1) by (intro largest_le_sample) simp
    ultimately show False by simp
  qed
  show "m \<le> largest_le xs v"
  proof (rule ccontr)
    assume "\<not> m \<le> largest_le xs v"
    then have "v < xs ! nat m" using assms(2) by (intro largest_le_above) simp_all
    then show False using assms(3) by simp
  qed
qed

lemma clamp_index_spec: "4 \<le> n \<Longrightarrow> clamp_index n i = spec_clamp n i"
  by (simp add: clamp_index_def spec_clamp_def Let_def)

lemma spec_clamp_low: "4 \<le> n \<Longrightarrow> i \<le> 1 \<Longrightarrow> spec_clamp n i = 1"
  by (simp add: spec_clamp_def)

text \<open>Below the last sample the loop selects the window of the specification.\<close>

lemma scan_largest_le:
  assumes "4 \<le> n" and "n = int (length x_arr)" and "sorted_wrt (<) x_arr"
    and "x_val < x_arr ! nat (n - 1)" and "scan n x_arr x_val 1 0 True = Inr r"
  shows "clamp_index n r = spec_clamp n (largest_le x_arr x_val)"
proof -
  from scan_flag[of 1 n x_arr x_val 0] assms(2,5)
  have d: "(r = 0 \<and> (\<forall>k. 1 \<le> k \<and> k < n \<longrightarrow> x_arr ! nat k \<le> x_val))
      \<or> (1 \<le> r + 1 \<and> r + 1 < n \<and> x_val < x_arr ! nat (r + 1)
          \<and> (\<forall>k. 1 \<le> k \<and> k \<le> r \<longrightarrow> x_arr ! nat k \<le> x_val))"
    by auto
  have "\<not> (\<forall>k. 1 \<le> k \<and> k < n \<longrightarrow> x_arr ! nat k \<le> x_val)"
    using assms(1,4) by (auto intro!: exI[of _ "n - 1"])
  with d have r: "0 \<le> r" "r + 1 < n" "x_val < x_arr ! nat (r + 1)"
    and below: "\<And>k. 1 \<le> k \<Longrightarrow> k \<le> r \<Longrightarrow> x_arr ! nat k \<le> x_val"
    by auto
  have above: "x_val < x_arr ! nat k" if "r < k" "k < int (length x_arr)" for k
  proof (cases "k = r + 1")
    case True
    then show ?thesis using r by simp
  next
    case False
    then have "x_arr ! nat (r + 1) < x_arr ! nat k"
      using that r assms(3) by (intro nth_strict_mono) simp_all
    then show ?thesis using r by simp
  qed
  show ?thesis
  proof (cases "1 \<le> r")
    case True
    then have "largest_le x_arr x_val = r"
      using r below above assms(2) by (intro largest_le_unique) simp_all
    then show ?thesis using assms(1) by (simp add: clamp_index_spec)
  next
    case False
    then have r0: "r = 0" using r by simp
    have "largest_le x_arr x_val \<le> 0"
    proof (rule ccontr)
      assume "\<not> largest_le x_arr x_val \<le> 0"
      then have "x_val < x_arr ! nat (largest_le x_arr x_val)"
        using largest_le_range[of x_arr x_val] r0 by (intro above) simp_all
      moreover have "x_arr ! nat (largest_le x_arr x_val) \<le> x_val"
        using \<open>\<not> largest_le x_arr x_val \<le> 0\<close> by (intro largest_le_sample) simp
      ultimately show False by simp
    qed
    then show ?thesis using assms(1) r0 by (simp add: clamp_index_spec spec_clamp_low)
  qed
qed

lemma interpolate_below_last:
  assumes "4 \<le> n" and "n = int (length x_arr)" and "n = int (length y_arr)"
    and "sorted_wrt (<) x_arr" and "x_val < x_arr ! nat (n - 1)"
  shows "interpolate n x_arr y_arr x_val = Inr (spec_interpolate n x_arr y_arr x_val)"
proof -
  obtain r where r: "scan n x_arr x_val 1 0 True = Inr r"
    using scan_flag[of 1 n x_arr x_val 0] assms(2) by auto
  have "clamp_index n r = spec_clamp n (largest_le x_arr x_val)"
    using assms r by (intro scan_largest_le) simp_all
  moreover have "take (nat n) x_arr = x_arr" using assms(2) by simp
  ultimately show ?thesis
    using interpolate_sorted[of n x_arr y_arr x_val r] assms r
    by (simp add: spec_interpolate_def Let_def)
qed

text \<open>At and above the last sample the loop finds nothing and the first window is used.\<close>

lemma interpolate_from_last:
  assumes "4 \<le> n" and "n = int (length x_arr)" and "n = int (length y_arr)"
    and "sorted_wrt (<) x_arr" and "x_arr ! nat (n - 1) \<le> x_val"
  shows "interpolate n x_arr y_arr x_val = Inr (cubic4 (samples x_arr 1) (samples y_arr 1) x_val)"
proof -
  from scan_flag[of 1 n x_arr x_val 0] assms(2)
  obtain r where r: "scan n x_arr x_val 1 0 True = Inr r"
    and d: "(r = 0 \<and> (\<forall>k. 1 \<le> k \<and> k < n \<longrightarrow> x_arr ! nat k \<le> x_val))
      \<or> (1 \<le> r + 1 \<and> r + 1 < n \<and> x_val < x_arr ! nat (r + 1)
          \<and> (\<forall>k. 1 \<le> k \<and> k \<le> r \<longrightarrow> x_arr ! nat k \<le> x_val))"
    by auto
  have le: "x_arr ! nat k \<le> x_val" if "0 \<le> k" "k < n" for k
  proof (cases "k = n - 1")
    case True
    then show ?thesis using assms(5) by simp
  next
    case False
    then have "x_arr ! nat k < x_arr ! nat (n - 1)"
      using that assms(2,4) by (intro nth_strict_mono) simp_all
    then show ?thesis using assms(5) by simp
  qed
  have "\<not> (1 \<le> r + 1 \<and> r + 1 < n \<and> x_val < x_arr ! nat (r + 1))"
    using le[of "r + 1"] by auto
  with d have "r = 0" by blast
  then have "clamp_index n r = 1" using assms(1) by (simp add: clamp_index_def)
  then show ?thesis
    using interpolate_sorted[of n x_arr y_arr x_val r] assms r by simp
qed

section \<open>The embedded tables\<close>

lemma length_energy_Ag: "length energy_Ag = 49"
  by (simp add: energy_Ag_def)

lemma length_ndata_Ag: "length ndata_Ag = 49"
  by (simp add: ndata_Ag_def)

lemma length_kdata_Ag: "length kdata_Ag = 49"
  by (simp add: kdata_Ag_def)

lemma length_energy_Au: "length energy_Au = 448"
  by (simp add: energy_Au_def)

lemma length_ndata_Au: "length ndata_Au = 448"
  by (simp add: ndata_Au_def)

lemma length_kdata_Au: "length kdata_Au = 448"
  by (simp add: kdata_Au_def)

lemma increasing_energy_Ag: "sorted_wrt (<) energy_Ag"
proof -
  have "successively (<) energy_Ag"
    by (simp add: energy_Ag_def)
  then show ?thesis
    by (simp add: successively_conv_sorted_wrt)
qed

lemma increasing_energy_Au: "sorted_wrt (<) energy_Au"
proof -
  have "successively (<) energy_Au"
    by (simp add: energy_Au_def)
  then show ?thesis
    by (simp add: successively_conv_sorted_wrt)
qed

lemma ends_energy_Ag: "energy_Ag ! 0 = 0.64" "energy_Ag ! nat (num_Ag - 1) = 6.60"
  by (simp_all add: energy_Ag_def num_Ag_def)

lemma ends_energy_Au: "energy_Au ! 0 = 0.0497329" "energy_Au ! nat (num_Au - 1) = 4.13281"
  by (simp_all add: energy_Au_def num_Au_def)

text \<open>
  The range test asks for an energy below the first sample and above the last one at
  once. On a table with an increasing first and last sample no energy passes it.
\<close>

lemma eps_table_guard_unsatisfiable:
  "(energy::real list) ! 0 \<le> energy ! nat (num - 1) \<Longrightarrow>
   \<not> (omega < energy ! 0 \<and> omega > energy ! nat (num - 1))"
  by linarith

lemma eps_table_total:
  assumes "4 \<le> num" and "num = int (length energy)"
    and "num = int (length ndata)" and "num = int (length kdata)"
    and "sorted_wrt (<) energy"
  shows "\<exists>e. eps_table num energy ndata kdata lambda = Inr e"
proof -
  let ?omega = "1239.8 / lambda"
  have "energy ! nat 0 < energy ! nat (num - 1)"
    using assms(1,2,5) by (intro nth_strict_mono) simp_all
  then have g: "\<not> (?omega < energy ! 0 \<and> ?omega > energy ! nat (num - 1))"
    by simp
  obtain n_val where n: "interpolate num energy ndata ?omega = Inr n_val"
    using interpolate_total[of num energy ndata ?omega] assms by auto
  obtain k_val where k: "interpolate num energy kdata ?omega = Inr k_val"
    using interpolate_total[of num energy kdata ?omega] assms by auto
  show ?thesis
    using g n k by (simp add: eps_table_def Let_def)
qed

lemma epsAg_total: "\<exists>e. epsAg lambda = Inr e"
  unfolding epsAg_def
  by (rule eps_table_total)
    (simp_all add: num_Ag_def length_energy_Ag length_ndata_Ag length_kdata_Ag increasing_energy_Ag)

lemma epsAu_total: "\<exists>e. epsAu lambda = Inr e"
  unfolding epsAu_def
  by (rule eps_table_total)
    (simp_all add: num_Au_def length_energy_Au length_ndata_Au length_kdata_Au increasing_energy_Au)

text \<open>At or above the last energy both interpolations use the first window.\<close>

lemma eps_table_from_last:
  assumes "4 \<le> num" and "num = int (length energy)"
    and "num = int (length ndata)" and "num = int (length kdata)"
    and "sorted_wrt (<) energy" and "energy ! nat (num - 1) \<le> 1239.8 / lambda"
  shows "eps_table num energy ndata kdata lambda =
     (let n_val = cubic4 (samples energy 1) (samples ndata 1) (1239.8 / lambda);
          k_val = cubic4 (samples energy 1) (samples kdata 1) (1239.8 / lambda)
      in Inr (IRE * of_real (n_val * n_val - k_val * k_val)
              + IIM * 2 * of_real n_val * of_real k_val))"
proof -
  let ?omega = "1239.8 / lambda"
  have "energy ! nat 0 < energy ! nat (num - 1)"
    using assms(1,2,5) by (intro nth_strict_mono) simp_all
  then have g: "\<not> (?omega < energy ! 0 \<and> ?omega > energy ! nat (num - 1))"
    by simp
  have n: "interpolate num energy ndata ?omega
      = Inr (cubic4 (samples energy 1) (samples ndata 1) ?omega)"
    using assms by (intro interpolate_from_last) simp_all
  have k: "interpolate num energy kdata ?omega
      = Inr (cubic4 (samples energy 1) (samples kdata 1) ?omega)"
    using assms by (intro interpolate_from_last) simp_all
  show ?thesis
    unfolding eps_table_def Let_def using g by (simp only: n k and_then_Inr if_False)
qed

lemma samples_Ag_1:
  "samples energy_Ag 1 = (0.64, 0.77, 0.89, 1.02)"
  "samples ndata_Ag 1 = (0.24, 0.15, 0.13, 0.09)"
  "samples kdata_Ag 1 = (14.080, 11.85, 10.10, 8.828)"
  by (simp_all add: samples_def energy_Ag_def ndata_Ag_def kdata_Ag_def)

lemma samples_Au_1:
  "samples energy_Au 1 = (0.0497329, 0.0516601, 0.0535569, 0.0554739)"
  "samples ndata_Au 1 = (42.79, 40.92, 39.16, 37.49)"
  "samples kdata_Au 1 = (137.5, 133.9, 130.4, 127.1)"
  by (simp_all add: samples_def energy_Au_def ndata_Au_def kdata_Au_def)

section \<open>Rounding to the nearest double\<close>

text \<open>
  The error of the rounding is at most half a unit in the last place; a rounded number
  rounds to itself; a number of at least \<open>2\<^sup>1\<^sup>0\<^sup>2\<^sup>4\<close> rounds to \<open>+\<infinity>\<close>.
\<close>

lemma rne_near: "\<bar>of_int (rne x) - x\<bar> \<le> 1 / 2"
  unfolding rne_def Let_def by (simp; linarith)

lemma rne_of_int: "rne (of_int m) = m"
  by (simp add: rne_def)

lemma rne_absorb:
  assumes "0 \<le> t" and "t < 1 / 2"
  shows "rne (of_int m + t) = m"
proof -
  have "\<lfloor>of_int m + t\<rfloor> = m" using assms by (intro floor_unique) simp_all
  thus ?thesis using assms by (simp add: rne_def)
qed

lemma rne_bound:
  assumes "\<bar>y\<bar> < 2 ^ 53"
  shows "\<bar>rne y\<bar> \<le> 2 ^ 53"
proof -
  have "\<bar>of_int (rne y) - y\<bar> \<le> 1 / 2" by (rule rne_near)
  hence "\<bar>real_of_int (rne y)\<bar> < 2 ^ 53 + 1" using assms by linarith
  hence "real_of_int \<bar>rne y\<bar> < of_int (2 ^ 53 + 1)" by simp
  hence "\<bar>rne y\<bar> < 2 ^ 53 + 1" by (simp only: of_int_less_iff)
  thus ?thesis by linarith
qed

lemma exponent_bounds:
  assumes "x \<noteq> 0"
  shows "2 powr of_int \<lfloor>log 2 \<bar>x\<bar>\<rfloor> \<le> \<bar>x\<bar>" and "\<bar>x\<bar> < 2 powr (of_int \<lfloor>log 2 \<bar>x\<bar>\<rfloor> + 1)"
  using floor_log_eq_powr_iff [of "\<bar>x\<bar>" 2 "\<lfloor>log 2 \<bar>x\<bar>\<rfloor>"] assms by simp_all

lemma exponent_eq:
  assumes "2 powr of_int e \<le> \<bar>x\<bar>" and "\<bar>x\<bar> < 2 powr (of_int e + 1)"
  shows "\<lfloor>log 2 \<bar>x\<bar>\<rfloor> = e"
proof -
  have "0 < \<bar>x\<bar>" using assms(1) by (smt (verit) powr_gt_zero)
  thus ?thesis using floor_log_eq_powr_iff [of "\<bar>x\<bar>" 2 e] assms by simp
qed

lemma two_powr_minus_1022: "(2::real) powr (- 1022) = 1 / 2 ^ 1022"
  by (simp add: powr_minus_divide)

lemma two_powr_less: "(2::real) powr a < 2 powr b \<Longrightarrow> a < b"
  by simp

lemma ulp_times:
  "(2::real) powr of_int (E - 52) * 2 ^ 52 = 2 powr of_int E"
proof -
  have "(2::real) powr of_int E = 2 powr (of_int (E - 52) + 52)" by simp
  also have "\<dots> = 2 powr of_int (E - 52) * 2 powr 52" by (rule powr_add)
  finally show ?thesis by simp
qed

lemma two_powr_int_nonneg:
  assumes "0 \<le> k"
  shows "(2::real) powr of_int k = of_int (2 ^ nat k)"
  using assms by (simp add: powr_real_of_int)

lemma two_powr_int_diff:
  "(2::real) powr of_int a / 2 powr of_int b = 2 powr of_int (a - b)"
  by (simp add: powr_diff)

lemma scaled_near:
  assumes "0 < u"
  shows "\<bar>u * of_int (rne (x / u)) - x\<bar> \<le> u / 2"
proof -
  have "u * of_int (rne (x / u)) - x = u * (of_int (rne (x / u)) - x / u)"
    using assms by (simp add: algebra_simps)
  hence "\<bar>u * of_int (rne (x / u)) - x\<bar> = u * \<bar>of_int (rne (x / u)) - x / u\<bar>"
    using assms by (simp add: abs_mult)
  also have "\<dots> \<le> u * (1 / 2)"
    using assms rne_near [of "x / u"] by (intro mult_left_mono) simp_all
  finally show ?thesis by simp
qed

lemma normal_ulp:
  assumes "1 / 2 ^ 1022 \<le> \<bar>x\<bar>"
  shows "ulp_exp x = \<lfloor>log 2 \<bar>x\<bar>\<rfloor> - 52"
proof -
  have x0: "x \<noteq> 0" using assms by auto
  have "(2::real) powr (- 1022) < 2 powr (of_int \<lfloor>log 2 \<bar>x\<bar>\<rfloor> + 1)"
    using assms exponent_bounds(2) [OF x0] two_powr_minus_1022 by linarith
  hence "- 1022 < (of_int \<lfloor>log 2 \<bar>x\<bar>\<rfloor> + 1 :: real)" by (rule two_powr_less)
  hence "- 1022 \<le> \<lfloor>log 2 \<bar>x\<bar>\<rfloor>" by linarith
  thus ?thesis unfolding ulp_exp_def by linarith
qed

lemma to_double_near:
  assumes lo: "1 / 2 ^ 1022 \<le> \<bar>x\<bar>" and hi: "\<bar>x\<bar> < 2 ^ 1023"
  shows "\<exists>r. to_double x = Fin r \<and> \<bar>r - x\<bar> \<le> \<bar>x\<bar> / 2 ^ 53"
proof -
  define E where "E = \<lfloor>log 2 \<bar>x\<bar>\<rfloor>"
  define u :: real where "u = 2 powr of_int (E - 52)"
  define r where "r = u * of_int (rne (x / u))"
  have x0: "x \<noteq> 0" using lo by auto
  have Elo: "2 powr of_int E \<le> \<bar>x\<bar>" using exponent_bounds(1) [OF x0] by (simp add: E_def)
  have ue: "ulp_exp x = E - 52" using normal_ulp [OF lo] by (simp add: E_def)
  have upos: "0 < u" by (simp add: u_def)
  have "u * 2 ^ 52 = 2 powr of_int E" unfolding u_def by (rule ulp_times)
  hence "u * 2 ^ 52 \<le> \<bar>x\<bar>" using Elo by simp
  hence half: "u / 2 \<le> \<bar>x\<bar> / 2 ^ 53" by simp
  have near: "\<bar>r - x\<bar> \<le> u / 2" unfolding r_def by (rule scaled_near [OF upos])
  hence err: "\<bar>r - x\<bar> \<le> \<bar>x\<bar> / 2 ^ 53" using half by linarith
  have "\<bar>x\<bar> / 2 ^ 53 \<le> \<bar>x\<bar>" by (simp add: field_simps)
  hence "\<bar>r\<bar> \<le> 2 * \<bar>x\<bar>" using err by linarith
  hence "\<bar>r\<bar> < 2 ^ 1024" using hi by simp
  hence "to_double x = Fin r"
    using x0 unfolding to_double_def ue Let_def r_def u_def abs_less_iff by simp
  thus ?thesis using err by blast
qed

lemma to_double_nonneg:
  assumes "0 \<le> x" and hi: "x < 2 ^ 1023"
  shows "\<exists>r. to_double x = Fin r \<and> 0 \<le> r \<and> r \<le> 2 * x"
proof (cases "x = 0")
  case True
  thus ?thesis by (simp add: to_double_def)
next
  case False
  define u :: real where "u = 2 powr of_int (ulp_exp x)"
  define m where "m = rne (x / u)"
  have upos: "0 < u" by (simp add: u_def)
  have y: "0 < x / u" using False assms(1) upos by simp
  have near: "\<bar>of_int m - x / u\<bar> \<le> 1 / 2" unfolding m_def by (rule rne_near)
  hence "- 1 < (of_int m :: real)" using y by linarith
  hence m0: "0 \<le> m" by linarith
  have "of_int m \<le> 2 * (x / u)"
  proof (cases "m = 0")
    case True thus ?thesis using y by simp
  next
    case False
    hence "1 \<le> m" using m0 by linarith
    hence "1 \<le> (of_int m :: real)" by linarith
    thus ?thesis using near by linarith
  qed
  hence "u * of_int m \<le> u * (2 * (x / u))" using upos by (intro mult_left_mono) simp_all
  hence le: "u * of_int m \<le> 2 * x" using upos by simp
  have ge: "0 \<le> u * of_int m" using upos m0 by simp
  have "u * of_int m < 2 ^ 1024" using le hi by simp
  hence "to_double x = Fin (u * of_int m)"
    using False ge unfolding to_double_def Let_def m_def u_def by simp
  thus ?thesis using le ge by blast
qed

lemma to_double_finite:
  assumes hi: "\<bar>x\<bar> < 2 ^ 1023"
  shows "\<exists>r. to_double x = Fin r \<and> \<bar>r\<bar> \<le> 2 * \<bar>x\<bar>"
proof (cases "x = 0")
  case True
  thus ?thesis by (simp add: to_double_def)
next
  case False
  define u :: real where "u = 2 powr of_int (ulp_exp x)"
  define m where "m = rne (x / u)"
  have upos: "0 < u" by (simp add: u_def)
  have near: "\<bar>of_int m - x / u\<bar> \<le> 1 / 2" unfolding m_def by (rule rne_near)
  have "\<bar>real_of_int m\<bar> \<le> 2 * \<bar>x / u\<bar>"
  proof (cases "m = 0")
    case True thus ?thesis by simp
  next
    case False
    hence "1 \<le> \<bar>m\<bar>" by linarith
    hence "1 \<le> \<bar>real_of_int m\<bar>" by linarith
    thus ?thesis using near by linarith
  qed
  hence "u * \<bar>real_of_int m\<bar> \<le> u * (2 * \<bar>x / u\<bar>)" using upos by (intro mult_left_mono) simp_all
  hence le: "\<bar>u * of_int m\<bar> \<le> 2 * \<bar>x\<bar>" using upos by (simp add: abs_mult)
  hence "\<bar>u * of_int m\<bar> < 2 ^ 1024" using hi by simp
  hence "to_double x = Fin (u * of_int m)"
    using False unfolding to_double_def Let_def m_def u_def abs_less_iff by simp
  thus ?thesis using le by blast
qed

lemma to_double_overflow:
  assumes "2 ^ 1024 \<le> x"
  shows "to_double x = PInf"
proof -
  define E where "E = \<lfloor>log 2 \<bar>x\<bar>\<rfloor>"
  define u :: real where "u = 2 powr of_int (E - 52)"
  define m where "m = rne (x / u)"
  have xpos: "0 < x" using assms by (smt (verit) zero_less_power)
  hence x0: "x \<noteq> 0" and ax: "\<bar>x\<bar> = x" by simp_all
  have "1 / 2 ^ 1022 \<le> \<bar>x\<bar>"
  proof -
    have "(1::real) / 2 ^ 1022 \<le> 1" by simp
    moreover have "(1::real) \<le> 2 ^ 1024" by simp
    ultimately show ?thesis using assms ax by linarith
  qed
  hence ue: "ulp_exp x = E - 52" using normal_ulp by (simp add: E_def)
  have Elo: "2 powr of_int E \<le> x" and Ehi: "x < 2 powr (of_int E + 1)"
    using exponent_bounds [OF x0] ax by (simp_all add: E_def)
  have "(2::real) powr 1024 < 2 powr (of_int E + 1)" using assms Ehi by simp
  hence "(1024::real) < of_int E + 1" by (rule two_powr_less)
  hence E1: "1024 \<le> E" by linarith
  have upos: "0 < u" by (simp add: u_def)
  have uE: "u * 2 ^ 52 = 2 powr of_int E" unfolding u_def by (rule ulp_times)
  hence "u * 2 ^ 52 \<le> x" using Elo by simp
  hence "2 ^ 52 \<le> x / u" using upos by (simp add: field_simps)
  moreover have "\<bar>of_int m - x / u\<bar> \<le> 1 / 2" unfolding m_def by (rule rne_near)
  ultimately have "(2::real) ^ 52 - 1 < of_int m" by linarith
  hence "(of_int (2 ^ 52 - 1) :: real) < of_int m" by simp
  hence "2 ^ 52 - 1 < m" by (simp only: of_int_less_iff)
  hence "2 ^ 52 \<le> m" by linarith
  hence "(of_int (2 ^ 52) :: real) \<le> of_int m" by (simp only: of_int_le_iff)
  hence "(2::real) ^ 52 \<le> of_int m" by simp
  hence "u * 2 ^ 52 \<le> u * of_int m" using upos by (intro mult_left_mono) simp_all
  hence "2 powr of_int E \<le> u * of_int m" using uE by simp
  moreover have "(2::real) powr 1024 \<le> 2 powr of_int E" using E1 by (intro powr_mono) simp_all
  ultimately have "2 ^ 1024 \<le> u * of_int m" by simp
  thus ?thesis using x0 unfolding to_double_def ue Let_def m_def u_def by simp
qed

lemma to_double_Fin_cases:
  assumes "to_double x = Fin r"
  shows "r = 0 \<or> (x \<noteq> 0 \<and> r = 2 powr of_int (ulp_exp x) * of_int (rne (x / 2 powr of_int (ulp_exp x)))
            \<and> \<bar>r\<bar> < 2 ^ 1024)"
  using assms unfolding to_double_def Let_def abs_less_iff
  by (auto split: if_splits)

lemma to_double_integral:
  assumes r0: "r \<noteq> 0" and int: "r / 2 powr of_int (ulp_exp r) = of_int k" and b: "\<bar>r\<bar> < 2 ^ 1024"
  shows "to_double r = Fin r"
proof -
  have "2 powr of_int (ulp_exp r) * of_int (rne (r / 2 powr of_int (ulp_exp r))) = r"
    unfolding int rne_of_int using int by (simp add: field_simps)
  thus ?thesis using r0 b unfolding to_double_def Let_def abs_less_iff by simp
qed

lemma to_double_idem:
  assumes "to_double x = Fin r"
  shows "to_double r = Fin r"
proof (cases "r = 0")
  case True
  thus ?thesis by (simp add: to_double_def)
next
  case False
  define ue where "ue = ulp_exp x"
  define u :: real where "u = 2 powr of_int ue"
  define m where "m = rne (x / u)"
  define E' where "E' = \<lfloor>log 2 \<bar>r\<bar>\<rfloor>"
  have x0: "x \<noteq> 0" and r: "r = u * of_int m" and b: "\<bar>r\<bar> < 2 ^ 1024"
    using to_double_Fin_cases [OF assms] False unfolding u_def ue_def m_def by blast+
  have upos: "0 < u" by (simp add: u_def)
  have ue1: "\<lfloor>log 2 \<bar>x\<bar>\<rfloor> - 52 \<le> ue" and ue2: "- 1074 \<le> ue"
    unfolding ue_def ulp_exp_def by linarith+
  have "\<bar>x\<bar> < 2 powr (of_int \<lfloor>log 2 \<bar>x\<bar>\<rfloor> + 1)" by (rule exponent_bounds(2) [OF x0])
  also have "\<dots> \<le> 2 powr (of_int ue + 53)" using ue1 by (intro powr_mono) simp_all
  also have "\<dots> = u * 2 ^ 53" by (simp add: powr_add u_def)
  finally have "\<bar>x / u\<bar> < 2 ^ 53" using upos by (simp add: field_simps)
  hence mb: "\<bar>m\<bar> \<le> 2 ^ 53" unfolding m_def by (rule rne_bound)
  have m0: "m \<noteq> 0" using False r by auto
  have ar: "\<bar>r\<bar> = u * of_int \<bar>m\<bar>" using upos r by (simp add: abs_mult)
  have E'lo: "2 powr of_int E' \<le> \<bar>r\<bar>" and E'hi: "\<bar>r\<bar> < 2 powr (of_int E' + 1)"
    using exponent_bounds [OF False] by (simp_all add: E'_def)
  have "\<exists>k. r / 2 powr of_int (ulp_exp r) = of_int k"
  proof (cases "\<bar>m\<bar> = 2 ^ 53")
    case True
    hence "\<bar>r\<bar> = u * 2 ^ 53" using ar by simp
    hence ar': "\<bar>r\<bar> = 2 powr of_int (ue + 53)" by (simp add: powr_add u_def)
    have "E' = ue + 53"
      unfolding E'_def by (rule exponent_eq) (simp_all add: ar')
    hence "ulp_exp r = ue + 1" using ue2 unfolding ulp_exp_def E'_def by linarith
    hence "r / 2 powr of_int (ulp_exp r) = u * of_int m / (u * 2)"
      by (simp add: r u_def powr_add)
    also have "\<dots> = of_int m / 2" using upos by simp
    also have "\<dots> = of_int (m div 2)"
    proof -
      have "m = 2 ^ 53 \<or> m = - (2 ^ 53)" using True by linarith
      thus ?thesis by auto
    qed
    finally show ?thesis by blast
  next
    case False
    hence "\<bar>m\<bar> < 2 ^ 53" using mb by linarith
    hence "real_of_int \<bar>m\<bar> < of_int (2 ^ 53)" by (simp only: of_int_less_iff)
    hence "real_of_int \<bar>m\<bar> < 2 ^ 53" by simp
    hence "u * of_int \<bar>m\<bar> < u * 2 ^ 53" using upos by (intro mult_strict_left_mono) simp_all
    hence "\<bar>r\<bar> < 2 powr (of_int ue + 53)" using ar by (simp add: powr_add u_def)
    hence "(2::real) powr of_int E' < 2 powr (of_int ue + 53)" using E'lo by linarith
    hence "of_int E' < (of_int ue + 53 :: real)" by (rule two_powr_less)
    hence "E' - 52 \<le> ue" by linarith
    hence le: "ulp_exp r \<le> ue" using ue2 unfolding ulp_exp_def E'_def by linarith
    have "r / 2 powr of_int (ulp_exp r) = of_int m * (2 powr of_int ue / 2 powr of_int (ulp_exp r))"
      by (simp add: r u_def)
    also have "\<dots> = of_int m * 2 powr of_int (ue - ulp_exp r)"
      by (simp only: two_powr_int_diff)
    also have "\<dots> = of_int m * of_int (2 ^ nat (ue - ulp_exp r))"
      using le by (simp only: two_powr_int_nonneg)
    also have "\<dots> = of_int (m * 2 ^ nat (ue - ulp_exp r))" by simp
    finally show ?thesis by blast
  qed
  then obtain k where "r / 2 powr of_int (ulp_exp r) = of_int k" ..
  with False show ?thesis using b by (rule to_double_integral)
qed

lemma to_double_absorb:
  assumes g: "to_double g = Fin g" and lo: "2 powr of_int e \<le> g"
    and hi: "g + t < 2 powr (of_int e + 1)" and t0: "0 \<le> t" and t1: "t < 2 powr of_int (e - 53)"
    and e: "- 1022 \<le> e"
  shows "to_double (g + t) = Fin g"
proof -
  define u :: real where "u = 2 powr of_int (e - 52)"
  define m where "m = rne (g / u)"
  have gpos: "0 < g" using lo by (smt (verit) powr_gt_zero)
  have upos: "0 < u" by (simp add: u_def)
  have "\<lfloor>log 2 \<bar>g\<bar>\<rfloor> = e" using lo hi t0 gpos by (intro exponent_eq) simp_all
  hence ueg: "ulp_exp g = e - 52" using e unfolding ulp_exp_def by linarith
  have "\<lfloor>log 2 \<bar>g + t\<bar>\<rfloor> = e" using lo hi t0 gpos by (intro exponent_eq) simp_all
  hence uet: "ulp_exp (g + t) = e - 52" using e unfolding ulp_exp_def by linarith
  have gm: "g = u * of_int m" and b: "\<bar>g\<bar> < 2 ^ 1024"
    using to_double_Fin_cases [OF g] gpos by (simp_all add: ueg u_def m_def)
  have "u = 2 * 2 powr of_int (e - 53)"
  proof -
    have "u = 2 powr (of_int (e - 53) + 1)" by (simp add: u_def)
    also have "\<dots> = 2 powr of_int (e - 53) * 2 powr 1" by (rule powr_add)
    finally show ?thesis by simp
  qed
  hence "t < u / 2" using t1 by simp
  hence th: "t / u < 1 / 2" using upos by (simp add: field_simps)
  have t0': "0 \<le> t / u" using t0 upos by simp
  have "(g + t) / u = of_int m + t / u" using gm upos by (simp add: field_simps)
  hence "rne ((g + t) / u) = m" using rne_absorb [OF t0' th] by simp
  hence "2 powr of_int (ulp_exp (g + t)) * of_int (rne ((g + t) / 2 powr of_int (ulp_exp (g + t)))) = g"
    unfolding uet using gm by (simp add: u_def)
  moreover have "g + t \<noteq> 0" using gpos t0 by linarith
  ultimately show ?thesis using b unfolding to_double_def Let_def abs_less_iff by simp
qed

lemma to_double_exact:
  assumes lo: "2 powr of_int e \<le> \<bar>x\<bar>" and hi: "\<bar>x\<bar> < 2 powr (of_int e + 1)"
    and e1: "- 1022 \<le> e" and e2: "e \<le> 1023"
    and int: "x / 2 powr of_int (e - 52) = of_int k"
  shows "to_double x = Fin x"
proof -
  have x0: "x \<noteq> 0" using lo by (smt (verit) powr_gt_zero)
  have "\<lfloor>log 2 \<bar>x\<bar>\<rfloor> = e" using lo hi by (rule exponent_eq)
  hence ue: "ulp_exp x = e - 52" using e1 unfolding ulp_exp_def by linarith
  have "(2::real) powr (of_int e + 1) \<le> 2 powr 1024" using e2 by (intro powr_mono) simp_all
  hence "\<bar>x\<bar> < 2 ^ 1024" using hi by simp
  thus ?thesis using x0 int ue by (intro to_double_integral [where k = k]) simp_all
qed

text \<open>The inputs used below are doubles.\<close>

lemma double_500: "to_double 500 = Fin 500"
  by (rule to_double_exact [where e = 8 and k = "500 * 2 ^ 44"]) (simp_all add: powr_minus_divide)

lemma double_2_100: "to_double (2 ^ 100) = Fin (2 ^ 100)"
  by (rule to_double_exact [where e = 100 and k = "2 ^ 52"]) (simp_all add: powr_minus_divide)

lemma double_small: "to_double (1 / 2 ^ 1020) = Fin (1 / 2 ^ 1020)"
  by (rule to_double_exact [where e = "- 1020" and k = "2 ^ 52"]) (simp_all add: powr_minus_divide)

text \<open>Bounds for the rounded value of a number in the normal range.\<close>

lemma to_double_sgn:
  assumes lo: "lo \<le> \<bar>x\<bar>" and hi: "\<bar>x\<bar> \<le> hi" and n: "1 / 2 ^ 1022 \<le> lo" and b: "hi < 2 ^ 1023"
  shows "\<exists>r. to_double x = Fin r \<and> (0 < r \<longleftrightarrow> 0 < x) \<and> lo / 2 \<le> \<bar>r\<bar> \<and> \<bar>r\<bar> \<le> 2 * hi"
proof -
  have "1 / 2 ^ 1022 \<le> \<bar>x\<bar>" and "\<bar>x\<bar> < 2 ^ 1023" using assms by linarith+
  then obtain r where r: "to_double x = Fin r" and e: "\<bar>r - x\<bar> \<le> \<bar>x\<bar> / 2 ^ 53"
    using to_double_near by blast
  have "\<bar>x\<bar> / 2 ^ 53 \<le> \<bar>x\<bar> / 2" by (intro divide_left_mono) simp_all
  hence e2: "\<bar>r - x\<bar> \<le> \<bar>x\<bar> / 2" using e by linarith
  have "0 < \<bar>x\<bar>" using lo n by (smt (verit) divide_pos_pos zero_less_power zero_less_one)
  hence "(0 < r \<longleftrightarrow> 0 < x) \<and> lo / 2 \<le> \<bar>r\<bar> \<and> \<bar>r\<bar> \<le> 2 * hi" using e2 lo hi by linarith
  thus ?thesis using r by blast
qed

lemma to_double_about:
  assumes "1 / 100 \<le> x" and "x \<le> 100"
  shows "\<exists>r. to_double x = Fin r \<and> x - 1 / 1000 \<le> r \<and> r \<le> x + 1 / 1000"
proof -
  have "(1::real) / 2 ^ 1022 \<le> 1 / 2 ^ 7" by (intro divide_left_mono power_increasing) simp_all
  hence "1 / 2 ^ 1022 \<le> \<bar>x\<bar>" using assms(1) by simp
  moreover have "(100::real) < 2 ^ 1023" by simp
  hence "\<bar>x\<bar> < 2 ^ 1023" using assms by linarith
  ultimately obtain r where r: "to_double x = Fin r" and e: "\<bar>r - x\<bar> \<le> \<bar>x\<bar> / 2 ^ 53"
    using to_double_near by blast
  have "\<bar>x\<bar> / 2 ^ 53 \<le> 100 / 2 ^ 53" using assms by (intro divide_right_mono) simp_all
  also have "\<dots> \<le> 1 / 1000" by simp
  finally have "\<bar>r - x\<bar> \<le> 1 / 1000" using e by linarith
  hence "x - 1 / 1000 \<le> r \<and> r \<le> x + 1 / 1000" by linarith
  thus ?thesis using r by blast
qed

lemma to_double_within:
  assumes lo: "lo \<le> x" and hi: "x \<le> hi" and n: "1 / 2 ^ 1022 \<le> lo" and b: "hi < 2 ^ 1023"
  shows "\<exists>r. to_double x = Fin r \<and> lo * (999 / 1000) \<le> r \<and> r \<le> hi * (1001 / 1000)"
proof -
  have lpos: "0 < lo" using n by (smt (verit) divide_pos_pos zero_less_power zero_less_one)
  hence xpos: "0 < x" using lo by linarith
  have "1 / 2 ^ 1022 \<le> \<bar>x\<bar>" and "\<bar>x\<bar> < 2 ^ 1023" using assms xpos by linarith+
  then obtain r where r: "to_double x = Fin r" and e: "\<bar>r - x\<bar> \<le> \<bar>x\<bar> / 2 ^ 53"
    using to_double_near by blast
  have "\<bar>x\<bar> / 2 ^ 53 \<le> \<bar>x\<bar> / 1000" by (intro divide_left_mono) simp_all
  hence "\<bar>r - x\<bar> \<le> x / 1000" using e xpos by simp
  hence "x * (999 / 1000) \<le> r" and "r \<le> x * (1001 / 1000)" by linarith+
  moreover have "lo * (999 / 1000) \<le> x * (999 / 1000)" using lo by simp
  moreover have "x * (1001 / 1000) \<le> hi * (1001 / 1000)" using hi by simp
  ultimately show ?thesis using r by (intro exI [of _ r]) linarith
qed

lemma small_normal: "(1::real) / 2 ^ 1022 \<le> 1 / 10 ^ 30"
proof -
  have "(10::real) ^ 30 \<le> 16 ^ 30" by (intro power_mono) simp_all
  also have "\<dots> = 2 ^ 120" by simp
  also have "\<dots> \<le> 2 ^ 1022" by (intro power_increasing) simp_all
  finally show ?thesis by (intro divide_left_mono) simp_all
qed

lemma large_normal: "(10::real) ^ 30 < 2 ^ 1023"
proof -
  have "(10::real) ^ 30 \<le> 16 ^ 30" by (intro power_mono) simp_all
  also have "\<dots> = 2 ^ 120" by simp
  also have "\<dots> < 2 ^ 1023" by (intro power_strict_increasing) simp_all
  finally show ?thesis .
qed

section \<open>The operations on doubles\<close>

lemma dless_PInf [simp]: "dless PInf y = False"
  by (cases y) simp_all

lemma dless_NaN [simp]: "dless x NaN = False"
  by (cases x) simp_all

lemma dless_irrefl [simp]: "dless x x = False"
  by (cases x) simp_all

lemma dadd_NaN [simp]: "dadd x NaN = NaN"
  by (cases x) simp_all

lemma dmul_NaN [simp]: "dmul x NaN = NaN"
  by (cases x) simp_all

lemma dsub_NaN [simp]: "dsub NaN y = NaN"
  by (simp add: dsub_def)

lemma dsub_PInf_Fin [simp]: "dsub PInf (Fin b) = PInf"
  by (simp add: dsub_def)

lemma dsub_Fin: "dsub (Fin a) (Fin b) = to_double (a - b)"
  by (simp add: dsub_def)

lemma dsub_sgn:
  assumes "lo \<le> \<bar>a - b\<bar>" and "\<bar>a - b\<bar> \<le> hi" and "1 / 2 ^ 1022 \<le> lo" and "hi < 2 ^ 1023"
  shows "\<exists>r. dsub (Fin a) (Fin b) = Fin r \<and> (0 < r \<longleftrightarrow> b < a) \<and> lo / 2 \<le> \<bar>r\<bar> \<and> \<bar>r\<bar> \<le> 2 * hi"
  using to_double_sgn [OF assms] by (simp add: dsub_Fin)

lemma dmul_sgn:
  assumes a: "la \<le> \<bar>a\<bar>" "\<bar>a\<bar> \<le> ha" and b: "lb \<le> \<bar>b\<bar>" "\<bar>b\<bar> \<le> hb"
    and pos: "0 < la" "0 < lb" and n: "1 / 2 ^ 1022 \<le> la * lb" and h: "ha * hb < 2 ^ 1023"
  shows "\<exists>r. dmul (Fin a) (Fin b) = Fin r \<and> (0 < r \<longleftrightarrow> (0 < a \<longleftrightarrow> 0 < b))
            \<and> la * lb / 2 \<le> \<bar>r\<bar> \<and> \<bar>r\<bar> \<le> 2 * (ha * hb)"
proof -
  have lo: "la * lb \<le> \<bar>a * b\<bar>" unfolding abs_mult using a b pos by (intro mult_mono) simp_all
  have hi: "\<bar>a * b\<bar> \<le> ha * hb" unfolding abs_mult using a b pos by (intro mult_mono) simp_all
  have "a \<noteq> 0" and "b \<noteq> 0" using a b pos by auto
  hence "0 < a * b \<longleftrightarrow> (0 < a \<longleftrightarrow> 0 < b)" by (auto simp add: zero_less_mult_iff)
  thus ?thesis using to_double_sgn [OF lo hi n h] by simp
qed

lemma dmul_within:
  assumes a: "la \<le> a" "a \<le> ha" and b: "lb \<le> b" "b \<le> hb" and pos: "0 < la" "0 < lb"
    and n: "1 / 2 ^ 1022 \<le> la * lb" and h: "ha * hb < 2 ^ 1023"
  shows "\<exists>r. dmul (Fin a) (Fin b) = Fin r \<and> la * lb * (999 / 1000) \<le> r \<and> r \<le> ha * hb * (1001 / 1000)"
proof -
  have "la * lb \<le> a * b" using a b pos by (intro mult_mono) simp_all
  moreover have "a * b \<le> ha * hb" using a b pos by (intro mult_mono) simp_all
  ultimately show ?thesis using to_double_within [OF _ _ n h] by simp
qed

lemma ddiv_within:
  assumes a: "la \<le> a" "a \<le> ha" and b: "lb \<le> b" "b \<le> hb" and pos: "0 < la" "0 < lb"
    and n: "1 / 2 ^ 1022 \<le> la / hb" and h: "ha / lb < 2 ^ 1023"
  shows "\<exists>r. ddiv (Fin a) (Fin b) = Fin r \<and> la / hb * (999 / 1000) \<le> r \<and> r \<le> ha / lb * (1001 / 1000)"
proof -
  have "la / hb \<le> a / b" using a b pos by (intro frac_le) simp_all
  moreover have "a / b \<le> ha / lb" using a b pos by (intro frac_le) simp_all
  moreover have "b \<noteq> 0" using b pos by simp
  ultimately show ?thesis using to_double_within [OF _ _ n h] by simp
qed

lemma dmul_nonneg:
  assumes a: "0 \<le> a" "a \<le> ha" and b: "0 \<le> b" "b \<le> hb" and h: "ha * hb < 2 ^ 1023"
  shows "\<exists>r. dmul (Fin a) (Fin b) = Fin r \<and> 0 \<le> r \<and> r \<le> 2 * (ha * hb)"
proof -
  have le: "a * b \<le> ha * hb" using a b by (intro mult_mono) simp_all
  have "0 \<le> a * b" using a b by simp
  moreover have "a * b < 2 ^ 1023" using le h by linarith
  ultimately obtain r where "to_double (a * b) = Fin r" "0 \<le> r" "r \<le> 2 * (a * b)"
    using to_double_nonneg by blast
  thus ?thesis using le by (intro exI [of _ r]) simp
qed

lemma dadd_Fin_idem: "dadd x y = Fin r \<Longrightarrow> to_double r = Fin r"
  by (cases x; cases y) (auto dest: to_double_idem)

lemma dadd_zero_right: "dadd (dadd x y) (Fin 0) = dadd x y"
proof (cases "dadd x y")
  case (Fin r)
  thus ?thesis using dadd_Fin_idem [OF Fin] by simp
qed simp_all

lemma dmul_zero_left: "dmul (Fin 0) (Fin c) = Fin 0"
  by (simp add: to_double_def)

lemma dsub_self_Fin: "dsub (Fin a) (Fin a) = Fin 0"
  by (simp add: dsub_def to_double_def)

lemma dmul_one_left: "to_double w = Fin w \<Longrightarrow> dmul (Fin 1) (Fin w) = Fin w"
  by simp

lemma dadd_Fin_zero: "to_double w = Fin w \<Longrightarrow> dadd (Fin w) (Fin 0) = Fin w"
  by simp

lemma dadd_zero_Fin: "to_double w = Fin w \<Longrightarrow> dadd (Fin 0) (Fin w) = Fin w"
  by simp

section \<open>The interpolation and the range test on doubles\<close>

text \<open>Inside the arrays the search loop and the reads of the window return.\<close>

lemma rd_d_in_range: "0 \<le> k \<Longrightarrow> k < int (length a) \<Longrightarrow> rd_d a k = Inr (a ! nat k)"
  by (simp add: rd_d_def)

lemma window_d_in_range:
  "1 \<le> i \<Longrightarrow> i + 2 < int (length a) \<Longrightarrow>
   window_d a i = Inr (a ! nat (i - 1), a ! nat i, a ! nat (i + 1), a ! nat (i + 2))"
  by (simp add: window_d_def rd_d_in_range)

lemma scan_d_total:
  "0 \<le> j \<Longrightarrow> n \<le> int (length x_arr) \<Longrightarrow> \<exists>r. scan_d n x_arr x_val j i flag = Inr r"
proof (induction n x_arr x_val j i flag rule: scan_d.induct)
  case (1 n x_arr x_val j i flag)
  show ?case
  proof (cases "j < n")
    case False
    thus ?thesis by (subst scan_d.simps) simp
  next
    case True
    hence rd: "rd_d x_arr j = Inr (x_arr ! nat j)" using 1 by (simp add: rd_d_in_range)
    show ?thesis
    proof (cases flag)
      case False
      thus ?thesis using True 1 by (subst scan_d.simps) simp
    next
      case flag: True
      show ?thesis
      proof (cases "dless x_val (x_arr ! nat j)")
        case True
        thus ?thesis using \<open>j < n\<close> flag rd 1 by (subst scan_d.simps) simp
      next
        case False
        thus ?thesis using \<open>j < n\<close> flag rd 1 by (subst scan_d.simps) simp
      qed
    qed
  qed
qed

lemma scan_d_PInf:
  "0 \<le> j \<Longrightarrow> n \<le> int (length x_arr) \<Longrightarrow> scan_d n x_arr PInf j i flag = Inr i"
proof (induction n x_arr "PInf" j i flag rule: scan_d.induct)
  case (1 n x_arr j i flag)
  show ?case
  proof (cases "j < n")
    case False
    thus ?thesis by (subst scan_d.simps) simp
  next
    case True
    hence rd: "rd_d x_arr j = Inr (x_arr ! nat j)" using 1 by (simp add: rd_d_in_range)
    show ?thesis using True rd 1 by (subst scan_d.simps) simp
  qed
qed

lemma interpolate_d_total:
  assumes "4 \<le> n" and "n \<le> int (length x_arr)" and "n \<le> int (length y_arr)"
  shows "\<exists>v. interpolate_d n x_arr y_arr x_val = Inr v"
proof -
  obtain i0 where s: "scan_d n x_arr x_val 1 0 True = Inr i0"
    using scan_d_total [of 1 n x_arr x_val 0 True] assms by auto
  have c: "1 \<le> clamp_index n i0" "clamp_index n i0 \<le> n - 3"
    using clamp_index_bounds [OF assms(1)] by simp_all
  show ?thesis
    unfolding interpolate_d_def s Let_def using c assms
    by (simp add: window_d_in_range)
qed

lemma interpolate_d_PInf:
  assumes "4 \<le> n" and "n \<le> int (length x_arr)" and "n \<le> int (length y_arr)"
  shows "interpolate_d n x_arr y_arr PInf
         = Inr (lagrange4_d (x_arr ! 0, x_arr ! 1, x_arr ! 2, x_arr ! 3)
                            (y_arr ! 0, y_arr ! 1, y_arr ! 2, y_arr ! 3) PInf)"
proof -
  have s: "scan_d n x_arr PInf 1 0 True = Inr 0" using assms by (intro scan_d_PInf) simp_all
  have c: "clamp_index n 0 = 1" using assms(1) by (simp add: clamp_index_def)
  have n2: "nat 2 = 2" "nat 3 = 3" by simp_all
  show ?thesis
    using assms by (simp add: interpolate_d_def s c window_d_in_range n2)
qed

text \<open>The three factors of a Lagrange denominator of a table with steps between 0.1 and 0.4.\<close>

lemma den_sgn:
  assumes 1: "1 / 10 \<le> \<bar>a - b1\<bar>" "\<bar>a - b1\<bar> \<le> 4 / 10"
    and 2: "1 / 10 \<le> \<bar>a - b2\<bar>" "\<bar>a - b2\<bar> \<le> 4 / 10"
    and 3: "1 / 10 \<le> \<bar>a - b3\<bar>" "\<bar>a - b3\<bar> \<le> 4 / 10"
  shows "\<exists>r. dmul (dmul (dsub (Fin a) (Fin b1)) (dsub (Fin a) (Fin b2))) (dsub (Fin a) (Fin b3)) = Fin r
            \<and> r \<noteq> 0 \<and> (0 < r \<longleftrightarrow> ((b1 < a \<longleftrightarrow> b2 < a) \<longleftrightarrow> b3 < a))"
proof -
  have small: "(1::real) / 2 ^ 1022 \<le> 1 / 2 ^ 20"
    by (intro divide_left_mono power_increasing) simp_all
  have n: "(1::real) / 2 ^ 1022 \<le> 1 / 10" "(1::real) / 2 ^ 1022 \<le> 1 / 20 * (1 / 20)"
    "(1::real) / 2 ^ 1022 \<le> 1 / 20 * (1 / 20) / 2 * (1 / 20)"
    using small by simp_all
  have h: "(4::real) / 10 < 2 ^ 1023" "(2::real) * (4 / 10) * (2 * (4 / 10)) < 2 ^ 1023"
    "(2::real) * (2 * (4 / 10) * (2 * (4 / 10))) * (2 * (4 / 10)) < 2 ^ 1023"
    by simp_all
  obtain d1 where d1: "dsub (Fin a) (Fin b1) = Fin d1" "0 < d1 \<longleftrightarrow> b1 < a"
      "1 / 20 \<le> \<bar>d1\<bar>" "\<bar>d1\<bar> \<le> 2 * (4 / 10)"
    using dsub_sgn [OF 1 n(1) h(1)] by auto
  obtain d2 where d2: "dsub (Fin a) (Fin b2) = Fin d2" "0 < d2 \<longleftrightarrow> b2 < a"
      "1 / 20 \<le> \<bar>d2\<bar>" "\<bar>d2\<bar> \<le> 2 * (4 / 10)"
    using dsub_sgn [OF 2 n(1) h(1)] by auto
  obtain d3 where d3: "dsub (Fin a) (Fin b3) = Fin d3" "0 < d3 \<longleftrightarrow> b3 < a"
      "1 / 20 \<le> \<bar>d3\<bar>" "\<bar>d3\<bar> \<le> 2 * (4 / 10)"
    using dsub_sgn [OF 3 n(1) h(1)] by auto
  obtain p where p: "dmul (Fin d1) (Fin d2) = Fin p" "0 < p \<longleftrightarrow> (0 < d1 \<longleftrightarrow> 0 < d2)"
      "1 / 20 * (1 / 20) / 2 \<le> \<bar>p\<bar>" "\<bar>p\<bar> \<le> 2 * (2 * (4 / 10) * (2 * (4 / 10)))"
    using dmul_sgn [OF d1(3,4) d2(3,4) _ _ n(2) h(2)] by auto
  obtain q where q: "dmul (Fin p) (Fin d3) = Fin q" "0 < q \<longleftrightarrow> (0 < p \<longleftrightarrow> 0 < d3)"
      "1 / 20 * (1 / 20) / 2 * (1 / 20) / 2 \<le> \<bar>q\<bar>"
    using dmul_sgn [OF p(3,4) d3(3,4) _ _ n(3) h(3)] by auto
  have "q \<noteq> 0" using q(3) by auto
  thus ?thesis using d1 d2 d3 p q by simp
qed

lemma lagrange4_d_PInf:
  assumes d0: "dmul (dmul (dsub (Fin a0) (Fin a1)) (dsub (Fin a0) (Fin a2))) (dsub (Fin a0) (Fin a3)) = Fin d0"
      "d0 < 0"
    and d1: "dmul (dmul (dsub (Fin a1) (Fin a0)) (dsub (Fin a1) (Fin a2))) (dsub (Fin a1) (Fin a3)) = Fin d1"
      "0 < d1"
    and b: "0 < b0" "0 < b1"
  shows "lagrange4_d (Fin a0, Fin a1, Fin a2, Fin a3) (Fin b0, Fin b1, y2, y3) PInf = NaN"
  using d0(2) d1(2) b by (simp add: lagrange4_d_def d0(1) d1(1) signed_inf_def)

text \<open>The range test on doubles: no value is below the first and above the last energy.\<close>

lemma eps_table_d_total:
  assumes n: "4 \<le> num" and len: "num \<le> int (length energy)" "num \<le> int (length ndata)"
      "num \<le> int (length kdata)"
    and e0: "map to_double energy ! 0 = Fin a" and e1: "map to_double energy ! nat (num - 1) = Fin b"
    and ab: "a \<le> b"
  shows "\<exists>p q p' q'. eps_table_d num energy ndata kdata lambda = Inr (dadd p q, dadd p' q')"
proof -
  define omega where "omega = ddiv (to_double 1239.8) lambda"
  have guard: "\<not> (dless omega (Fin a) \<and> dless (Fin b) omega)"
    using ab by (cases omega) simp_all
  obtain nv where nv: "interpolate_d num (map to_double energy) (map to_double ndata) omega = Inr nv"
    using interpolate_d_total [of num "map to_double energy" "map to_double ndata" omega] n len
    by auto
  obtain kv where kv: "interpolate_d num (map to_double energy) (map to_double kdata) omega = Inr kv"
    using interpolate_d_total [of num "map to_double energy" "map to_double kdata" omega] n len
    by auto
  show ?thesis
    unfolding eps_table_d_def Let_def omega_def [symmetric] e0 e1 nv kv
    using guard by (simp add: cadd_def) blast
qed

lemma Ag_ends:
  "\<exists>a b. map to_double energy_Ag ! 0 = Fin a \<and> map to_double energy_Ag ! nat (num_Ag - 1) = Fin b \<and> a \<le> b"
proof -
  obtain a where a: "to_double 0.64 = Fin a" "a \<le> 641 / 1000"
    using to_double_about [of "0.64"] by auto
  obtain b where b: "to_double 6.60 = Fin b" "6599 / 1000 \<le> b"
    using to_double_about [of "6.60"] by auto
  have "map to_double energy_Ag ! 0 = to_double 0.64"
    "map to_double energy_Ag ! nat (num_Ag - 1) = to_double 6.60"
    by (simp_all add: energy_Ag_def num_Ag_def)
  thus ?thesis unfolding a(1) b(1) using a(2) b(2) by (intro exI [of _ a] exI [of _ b]) simp
qed

lemma epsAg_d_total: "\<exists>p q p' q'. epsAg_d lambda = Inr (dadd p q, dadd p' q')"
proof -
  obtain a b where "map to_double energy_Ag ! 0 = Fin a"
      "map to_double energy_Ag ! nat (num_Ag - 1) = Fin b" "a \<le> b"
    using Ag_ends by blast
  thus ?thesis
    unfolding epsAg_d_def
    by (intro eps_table_d_total)
       (simp_all add: num_Ag_def length_energy_Ag length_ndata_Ag length_kdata_Ag)
qed

lemma Au_ends:
  "\<exists>a b. map to_double energy_Au ! 0 = Fin a \<and> map to_double energy_Au ! nat (num_Au - 1) = Fin b \<and> a \<le> b"
proof -
  obtain a where a: "to_double 0.0497329 = Fin a" "a \<le> 0.0497329 + 1 / 1000"
    using to_double_about [of "0.0497329"] by auto
  obtain b where b: "to_double 4.13281 = Fin b" "4.13281 - 1 / 1000 \<le> b"
    using to_double_about [of "4.13281"] by auto
  have "map to_double energy_Au ! 0 = to_double (energy_Au ! 0)"
    by (rule nth_map) (simp add: length_energy_Au)
  hence e0: "map to_double energy_Au ! 0 = Fin a"
    by (simp only: ends_energy_Au a(1))
  have "map to_double energy_Au ! nat (num_Au - 1) = to_double (energy_Au ! nat (num_Au - 1))"
    by (rule nth_map) (simp add: length_energy_Au num_Au_def)
  hence e1: "map to_double energy_Au ! nat (num_Au - 1) = Fin b"
    by (simp only: ends_energy_Au b(1))
  have "a \<le> b" using a(2) b(2) by simp
  thus ?thesis using e0 e1 by blast
qed

lemma epsAu_d_total: "\<exists>p q p' q'. epsAu_d lambda = Inr (dadd p q, dadd p' q')"
proof -
  obtain a b where "map to_double energy_Au ! 0 = Fin a"
      "map to_double energy_Au ! nat (num_Au - 1) = Fin b" "a \<le> b"
    using Au_ends by blast
  thus ?thesis
    unfolding epsAu_d_def
    by (intro eps_table_d_total)
       (simp_all add: num_Au_def length_energy_Au length_ndata_Au length_kdata_Au)
qed

text \<open>
  A wavelength of \<open>2\<^sup>-\<^sup>1\<^sup>0\<^sup>2\<^sup>0\<close> nm. The photon energy overflows to \<open>+\<infinity>\<close>; the search finds no
  sample above it and the window is the first one; the numerators of the four terms are
  \<open>+\<infinity>\<close>, the first denominator is negative and the second positive, and the sum of the
  first two terms is \<open>-\<infinity> + \<infinity>\<close>.
\<close>

lemma Ag_first:
  "map to_double energy_Ag ! 0 = to_double 0.64" "map to_double energy_Ag ! 1 = to_double 0.77"
  "map to_double energy_Ag ! 2 = to_double 0.89" "map to_double energy_Ag ! 3 = to_double 1.02"
  "map to_double ndata_Ag ! 0 = to_double 0.24" "map to_double ndata_Ag ! 1 = to_double 0.15"
  by (simp_all add: energy_Ag_def ndata_Ag_def)

lemma interpolate_d_Ag_PInf:
  "interpolate_d num_Ag (map to_double energy_Ag) (map to_double ndata_Ag) PInf
     = Inr NaN"
proof -
  obtain a0 where a0: "to_double 0.64 = Fin a0" "639 / 1000 \<le> a0" "a0 \<le> 641 / 1000"
    using to_double_about [of "0.64"] by auto
  obtain a1 where a1: "to_double 0.77 = Fin a1" "769 / 1000 \<le> a1" "a1 \<le> 771 / 1000"
    using to_double_about [of "0.77"] by auto
  obtain a2 where a2: "to_double 0.89 = Fin a2" "889 / 1000 \<le> a2" "a2 \<le> 891 / 1000"
    using to_double_about [of "0.89"] by auto
  obtain a3 where a3: "to_double 1.02 = Fin a3" "1019 / 1000 \<le> a3" "a3 \<le> 1021 / 1000"
    using to_double_about [of "1.02"] by auto
  obtain b0 where b0: "to_double 0.24 = Fin b0" "239 / 1000 \<le> b0" "b0 \<le> 241 / 1000"
    using to_double_about [of "0.24"] by auto
  obtain b1 where b1: "to_double 0.15 = Fin b1" "149 / 1000 \<le> b1" "b1 \<le> 151 / 1000"
    using to_double_about [of "0.15"] by auto
  have g01: "1 / 10 \<le> \<bar>a0 - a1\<bar>" "\<bar>a0 - a1\<bar> \<le> 4 / 10" using a0(2,3) a1(2,3) by linarith+
  have g02: "1 / 10 \<le> \<bar>a0 - a2\<bar>" "\<bar>a0 - a2\<bar> \<le> 4 / 10" using a0(2,3) a2(2,3) by linarith+
  have g03: "1 / 10 \<le> \<bar>a0 - a3\<bar>" "\<bar>a0 - a3\<bar> \<le> 4 / 10" using a0(2,3) a3(2,3) by linarith+
  have g10: "1 / 10 \<le> \<bar>a1 - a0\<bar>" "\<bar>a1 - a0\<bar> \<le> 4 / 10" using a0(2,3) a1(2,3) by linarith+
  have g12: "1 / 10 \<le> \<bar>a1 - a2\<bar>" "\<bar>a1 - a2\<bar> \<le> 4 / 10" using a1(2,3) a2(2,3) by linarith+
  have g13: "1 / 10 \<le> \<bar>a1 - a3\<bar>" "\<bar>a1 - a3\<bar> \<le> 4 / 10" using a1(2,3) a3(2,3) by linarith+
  obtain d0 where d0:
    "dmul (dmul (dsub (Fin a0) (Fin a1)) (dsub (Fin a0) (Fin a2))) (dsub (Fin a0) (Fin a3)) = Fin d0"
    "d0 \<noteq> 0" "0 < d0 \<longleftrightarrow> ((a1 < a0 \<longleftrightarrow> a2 < a0) \<longleftrightarrow> a3 < a0)"
    using den_sgn [OF g01 g02 g03] by blast
  obtain d1 where d1:
    "dmul (dmul (dsub (Fin a1) (Fin a0)) (dsub (Fin a1) (Fin a2))) (dsub (Fin a1) (Fin a3)) = Fin d1"
    "d1 \<noteq> 0" "0 < d1 \<longleftrightarrow> ((a0 < a1 \<longleftrightarrow> a2 < a1) \<longleftrightarrow> a3 < a1)"
    using den_sgn [OF g10 g12 g13] by blast
  have o: "a0 < a1" "a1 < a2" "a2 < a3" using a0(2,3) a1(2,3) a2(2,3) a3(2,3) by linarith+
  have "\<not> 0 < d0" using d0(3) o by auto
  hence "d0 < 0" using d0(2) by linarith
  moreover have "0 < d1" using d1(3) o by auto
  moreover have "0 < b0" "0 < b1" using b0(2) b1(2) by linarith+
  ultimately have "lagrange4_d (Fin a0, Fin a1, Fin a2, Fin a3)
      (Fin b0, Fin b1, map to_double ndata_Ag ! 2, map to_double ndata_Ag ! 3) PInf = NaN"
    using d0(1) d1(1) by (intro lagrange4_d_PInf)
  moreover have "interpolate_d num_Ag (map to_double energy_Ag) (map to_double ndata_Ag) PInf
      = Inr (lagrange4_d
          (map to_double energy_Ag ! 0, map to_double energy_Ag ! 1,
           map to_double energy_Ag ! 2, map to_double energy_Ag ! 3)
          (map to_double ndata_Ag ! 0, map to_double ndata_Ag ! 1,
           map to_double ndata_Ag ! 2, map to_double ndata_Ag ! 3) PInf)"
    by (rule interpolate_d_PInf) (simp_all add: num_Ag_def length_energy_Ag length_ndata_Ag)
  ultimately show ?thesis
    by (simp only: Ag_first a0(1) a1(1) a2(1) a3(1) b0(1) b1(1))
qed

lemma energy_overflows: "ddiv (to_double 1239.8) (Fin (1 / 2 ^ 1020)) = PInf"
proof -
  have "(1::real) / 2 ^ 1022 \<le> 1 / 2 ^ 0" by (intro divide_left_mono power_increasing) simp_all
  hence n: "(1::real) / 2 ^ 1022 \<le> 1239.8" by simp
  have h: "(1239.8::real) < 2 ^ 1023" by simp
  have "(1239.8::real) \<le> \<bar>1239.8\<bar>" "\<bar>1239.8::real\<bar> \<le> 1239.8" by simp_all
  from to_double_sgn [OF this n h]
  obtain c where c: "to_double 1239.8 = Fin c" "0 < c" "1239.8 / 2 \<le> \<bar>c\<bar>" by auto
  have "16 \<le> c" using c(2,3) by simp
  hence "16 * 2 ^ 1020 \<le> c * 2 ^ 1020" by (intro mult_right_mono) simp_all
  hence "2 ^ 1024 \<le> c / (1 / 2 ^ 1020)" by simp
  hence "to_double (c / (1 / 2 ^ 1020)) = PInf" by (rule to_double_overflow)
  thus ?thesis unfolding c(1) by simp
qed

lemma epsAg_d_overflow: "epsAg_d (Fin (1 / 2 ^ 1020)) = Inr (NaN, NaN)"
proof -
  obtain k where k: "interpolate_d num_Ag (map to_double energy_Ag) (map to_double kdata_Ag) PInf = Inr k"
    using interpolate_d_total [of num_Ag "map to_double energy_Ag" "map to_double kdata_Ag" PInf]
    by (auto simp add: num_Ag_def length_energy_Ag length_kdata_Ag)
  show ?thesis
    unfolding epsAg_d_def eps_table_d_def Let_def energy_overflows interpolate_d_Ag_PInf k
    by (simp add: cadd_def cscale_def IRE_d_def IIM_d_def)
qed

section \<open>The range test of the dielectric functions\<close>

text \<open>
  C9, as amended. For every wavelength \<open>\<lambda> > 0\<close>, whatever its photon energy
  \<open>1239.8 / \<lambda>\<close>, the range tests of \<open>epsAg\<close> and \<open>epsAu\<close> are false, since the first energy
  of each table is below the last one, so the abort branch is never taken; and in exact
  arithmetic both functions return a permittivity: no read leaves the tables and no
  Lagrange denominator is zero. On doubles too, for every argument, the abort branch is
  not taken, no read leaves the tables and a pair of doubles is returned.
\<close>

theorem eps_never_aborts:
  assumes "0 < lambda"
  shows "energy_Ag ! 0 < energy_Ag ! nat (num_Ag - 1)
     \<and> \<not> (1239.8 / lambda < energy_Ag ! 0 \<and> 1239.8 / lambda > energy_Ag ! nat (num_Ag - 1))
     \<and> (\<exists>e. epsAg lambda = Inr e)
     \<and> energy_Au ! 0 < energy_Au ! nat (num_Au - 1)
     \<and> \<not> (1239.8 / lambda < energy_Au ! 0 \<and> 1239.8 / lambda > energy_Au ! nat (num_Au - 1))
     \<and> (\<exists>e. epsAu lambda = Inr e)
     \<and> (\<forall>l. \<exists>e. epsAg_d l = Inr e)
     \<and> (\<forall>l. \<exists>e. epsAu_d l = Inr e)"
proof -
  have ag: "energy_Ag ! 0 < energy_Ag ! nat (num_Ag - 1)"
    by (simp add: ends_energy_Ag)
  have au: "energy_Au ! 0 < energy_Au ! nat (num_Au - 1)"
    by (simp add: ends_energy_Au)
  have gag: "\<not> (1239.8 / lambda < energy_Ag ! 0 \<and> 1239.8 / lambda > energy_Ag ! nat (num_Ag - 1))"
    using ag by (intro eps_table_guard_unsatisfiable) simp
  have gau: "\<not> (1239.8 / lambda < energy_Au ! 0 \<and> 1239.8 / lambda > energy_Au ! nat (num_Au - 1))"
    using au by (intro eps_table_guard_unsatisfiable) simp
  have dag: "\<forall>l. \<exists>e. epsAg_d l = Inr e"
    using epsAg_d_total by blast
  have dau: "\<forall>l. \<exists>e. epsAu_d l = Inr e"
    using epsAu_d_total by blast
  show ?thesis
    using ag au gag gau dag dau epsAg_total[of lambda] epsAu_total[of lambda] by blast
qed

theorem eps_never_aborts_witness:
  "(0::real) < 100
     \<and> energy_Ag ! 0 < energy_Ag ! nat (num_Ag - 1)
     \<and> \<not> (1239.8 / 100 < energy_Ag ! 0 \<and> 1239.8 / 100 > energy_Ag ! nat (num_Ag - 1))
     \<and> (\<exists>e. epsAg 100 = Inr e)
     \<and> energy_Au ! 0 < energy_Au ! nat (num_Au - 1)
     \<and> \<not> (1239.8 / 100 < energy_Au ! 0 \<and> 1239.8 / 100 > energy_Au ! nat (num_Au - 1))
     \<and> (\<exists>e. epsAu 100 = Inr e)
     \<and> (\<forall>l. \<exists>e. epsAg_d l = Inr e)
     \<and> (\<forall>l. \<exists>e. epsAu_d l = Inr e)"
proof -
  have h: "(0::real) < 100" by simp
  show ?thesis using h eps_never_aborts[OF h] by simp
qed

text \<open>
  C9, the value on doubles. The permittivity returned is not always finite:
  \<open>2\<^sup>-\<^sup>1\<^sup>0\<^sup>2\<^sup>0\<close> is a positive double, and for this wavelength \<open>epsAg\<close> returns a NaN as real
  part and a NaN as imaginary part.
\<close>

theorem epsAg_not_finite_on_doubles:
  "(0::real) < 1 / 2 ^ 1020
   \<and> to_double (1 / 2 ^ 1020) = Fin (1 / 2 ^ 1020)
   \<and> epsAg_d (Fin (1 / 2 ^ 1020)) = Inr (NaN, NaN)"
  using double_small epsAg_d_overflow by simp

text \<open>
  C1. An energy outside the table should end the computation with the out-of-range
  condition. At \<open>\<lambda> = 100\<close> nm the photon energy 12.398 eV is above the last energy of
  both tables (6.60 eV and 4.13281 eV), and \<open>epsAg\<close> and \<open>epsAu\<close> return a value all the
  same: the cubic through the first four samples, evaluated far outside them. At
  \<open>\<lambda> = 2000\<close> nm the energy 0.6199 eV is below the first energy 0.64 eV of the silver
  table, and \<open>epsAg\<close> returns a value as well.
\<close>

theorem eps_returns_outside_range:
  "1239.8 / 2000 < energy_Ag ! 0
   \<and> epsAg 2000 = Inr (Complex (- (88026847545165478657715889 / 422500000000000000000000))
                              (81116534668640816649197 / 10562500000000000000000))
   \<and> energy_Ag ! nat (num_Ag - 1) < 1239.8 / 100
   \<and> epsAg 100 = Inr (Complex (- (2207331498434840870737041 / 1650390625000000))
                             (- (8463626465788932521193 / 10314941406250)))
   \<and> energy_Au ! nat (num_Au - 1) < 1239.8 / 100
   \<and> epsAu 100 = Inr (Complex
       (- (339802394564875384264605959163217571799734680060549360668730811 /
           4596606307826601867376770741254553600000000))
       (1662943620664016244107045605979355541624611762567415633230396887 /
        77238307992513000044821004355547348992000000))"
proof -
  have last_Ag: "energy_Ag ! nat (num_Ag - 1) < 1239.8 / 100"
    by (simp add: ends_energy_Ag)
  have "epsAg 100 =
     (let n_val = cubic4 (samples energy_Ag 1) (samples ndata_Ag 1) (1239.8 / 100);
          k_val = cubic4 (samples energy_Ag 1) (samples kdata_Ag 1) (1239.8 / 100)
      in Inr (IRE * of_real (n_val * n_val - k_val * k_val)
              + IIM * 2 * of_real n_val * of_real k_val))"
    unfolding epsAg_def using last_Ag
    by (intro eps_table_from_last)
      (simp_all add: num_Ag_def length_energy_Ag length_ndata_Ag length_kdata_Ag
        increasing_energy_Ag)
  then have ag: "epsAg 100 = Inr (Complex (- (2207331498434840870737041 / 1650390625000000))
                             (- (8463626465788932521193 / 10314941406250)))"
    by (simp add: samples_Ag_1 cubic4_def IRE_def IIM_def complex_eq_iff)
  have last_Au: "energy_Au ! nat (num_Au - 1) < 1239.8 / 100"
    by (simp add: ends_energy_Au)
  have "epsAu 100 =
     (let n_val = cubic4 (samples energy_Au 1) (samples ndata_Au 1) (1239.8 / 100);
          k_val = cubic4 (samples energy_Au 1) (samples kdata_Au 1) (1239.8 / 100)
      in Inr (IRE * of_real (n_val * n_val - k_val * k_val)
              + IIM * 2 * of_real n_val * of_real k_val))"
    unfolding epsAu_def using last_Au
    by (intro eps_table_from_last)
      (simp_all add: num_Au_def length_energy_Au length_ndata_Au length_kdata_Au
        increasing_energy_Au)
  then have au: "epsAu 100 = Inr (Complex
       (- (339802394564875384264605959163217571799734680060549360668730811 /
           4596606307826601867376770741254553600000000))
       (1662943620664016244107045605979355541624611762567415633230396887 /
        77238307992513000044821004355547348992000000))"
    by (simp add: samples_Au_1 cubic4_def IRE_def IIM_def complex_eq_iff)
  have first_Ag: "1239.8 / 2000 < energy_Ag ! 0"
    by (simp add: ends_energy_Ag)
  have n: "interpolate num_Ag energy_Ag ndata_Ag (1239.8 / 2000)
      = Inr (cubic4 (samples energy_Ag 1) (samples ndata_Ag 1) (1239.8 / 2000))"
    by (simp add: interpolate_def scan.simps rd_def clamp_index_def window_def lagrange4_def
        Let_def num_Ag_def energy_Ag_def ndata_Ag_def samples_def cubic4_def)
  have k: "interpolate num_Ag energy_Ag kdata_Ag (1239.8 / 2000)
      = Inr (cubic4 (samples energy_Ag 1) (samples kdata_Ag 1) (1239.8 / 2000))"
    by (simp add: interpolate_def scan.simps rd_def clamp_index_def window_def lagrange4_def
        Let_def num_Ag_def energy_Ag_def kdata_Ag_def samples_def cubic4_def)
  have below: "epsAg 2000
      = Inr (Complex (- (88026847545165478657715889 / 422500000000000000000000))
                     (81116534668640816649197 / 10562500000000000000000))"
    unfolding epsAg_def eps_table_def Let_def n k
    by (simp add: ends_energy_Ag samples_Ag_1 cubic4_def IRE_def IIM_def complex_eq_iff)
  show ?thesis
    using first_Ag below last_Ag ag last_Au au by blast
qed

section \<open>Sample values\<close>

text \<open>The Lagrange cubic takes the sample values at its four nodes.\<close>

lemma cubic4_nodes:
  assumes "x0 < x1" and "x1 < x2" and "x2 < x3"
  shows "cubic4 (x0, x1, x2, x3) (y0, y1, y2, y3) x0 = y0"
    and "cubic4 (x0, x1, x2, x3) (y0, y1, y2, y3) x1 = y1"
    and "cubic4 (x0, x1, x2, x3) (y0, y1, y2, y3) x2 = y2"
    and "cubic4 (x0, x1, x2, x3) (y0, y1, y2, y3) x3 = y3"
  using assms by (simp_all add: cubic4_def)

lemma sum_le_3: "(\<Sum>i\<le>3. f i) = f 0 + f 1 + f 2 + (f 3 :: real)" for f :: "nat \<Rightarrow> real"
  by (simp add: eval_nat_numeral)

lemma basis_term_polynomial:
  fixes a b c y d :: real
  shows "\<exists>k. \<forall>t. y * ((t - a) * (t - b) * (t - c)) / d = (\<Sum>i\<le>3. k i * t ^ i)"
proof (intro exI allI)
  fix t
  let ?k = "\<lambda>i::nat. y / d * (if i = 0 then - (a * b * c) else if i = 1 then a * b + a * c + b * c
              else if i = 2 then - (a + b + c) else 1)"
  define q where "q = y / d"
  have "q * ((t - a) * (t - b) * (t - c))
      = q * - (a * b * c) * t ^ 0 + q * (a * b + a * c + b * c) * t ^ 1
        + q * - (a + b + c) * t ^ 2 + q * 1 * t ^ 3"
    by (simp add: algebra_simps power2_eq_square power3_eq_cube)
  then show "y * ((t - a) * (t - b) * (t - c)) / d = (\<Sum>i\<le>3. ?k i * t ^ i)"
    unfolding sum_le_3 q_def by simp
qed

lemma cubic4_polynomial: "\<exists>k. \<forall>t. cubic4 x y t = (\<Sum>i\<le>3. k i * t ^ i)"
proof -
  obtain x0 x1 x2 x3 y0 y1 y2 y3 where x: "x = (x0, x1, x2, x3)" and y: "y = (y0, y1, y2, y3)"
    by (metis prod_cases4)
  obtain k0 where k0: "\<And>t. y0 * ((t - x1) * (t - x2) * (t - x3)) / ((x0 - x1) * (x0 - x2) * (x0 - x3))
      = (\<Sum>i\<le>3. k0 i * t ^ i)"
    using basis_term_polynomial by blast
  obtain k1 where k1: "\<And>t. y1 * ((t - x0) * (t - x2) * (t - x3)) / ((x1 - x0) * (x1 - x2) * (x1 - x3))
      = (\<Sum>i\<le>3. k1 i * t ^ i)"
    using basis_term_polynomial by blast
  obtain k2 where k2: "\<And>t. y2 * ((t - x0) * (t - x1) * (t - x3)) / ((x2 - x0) * (x2 - x1) * (x2 - x3))
      = (\<Sum>i\<le>3. k2 i * t ^ i)"
    using basis_term_polynomial by blast
  obtain k3 where k3: "\<And>t. y3 * ((t - x0) * (t - x1) * (t - x2)) / ((x3 - x0) * (x3 - x1) * (x3 - x2))
      = (\<Sum>i\<le>3. k3 i * t ^ i)"
    using basis_term_polynomial by blast
  have "cubic4 x y t = (\<Sum>i\<le>3. (k0 i + k1 i + k2 i + k3 i) * t ^ i)" for t
    unfolding x y cubic4_def Let_def prod.case k0 k1 k2 k3
    by (simp add: sum.distrib distrib_right)
  then show ?thesis
    by (intro exI[of _ "\<lambda>i. k0 i + k1 i + k2 i + k3 i"] allI)
qed

text \<open>
  A polynomial of degree at most three that passes through four samples with increasing
  arguments is the Lagrange cubic of these samples.
\<close>

lemma cubic4_unique:
  fixes c :: "nat \<Rightarrow> real"
  assumes "x0 < x1" and "x1 < x2" and "x2 < x3"
    and "(\<Sum>i\<le>3. c i * x0 ^ i) = y0" and "(\<Sum>i\<le>3. c i * x1 ^ i) = y1"
    and "(\<Sum>i\<le>3. c i * x2 ^ i) = y2" and "(\<Sum>i\<le>3. c i * x3 ^ i) = y3"
  shows "(\<Sum>i\<le>3. c i * t ^ i) = cubic4 (x0, x1, x2, x3) (y0, y1, y2, y3) t"
proof -
  obtain k where k: "\<And>t. cubic4 (x0, x1, x2, x3) (y0, y1, y2, y3) t = (\<Sum>i\<le>3. k i * t ^ i)"
    using cubic4_polynomial by blast
  let ?e = "\<lambda>i. c i - k i"
  have diff: "(\<Sum>i\<le>3. ?e i * z ^ i) = (\<Sum>i\<le>3. c i * z ^ i) - cubic4 (x0, x1, x2, x3) (y0, y1, y2, y3) z" for z
    by (simp add: k left_diff_distrib sum_subtractf)
  have roots: "{x0, x1, x2, x3} \<subseteq> {z. (\<Sum>i\<le>3. ?e i * z ^ i) = 0}"
    using assms by (auto simp: diff cubic4_nodes simp del: sum.atMost_Suc)
  have card4: "card {x0, x1, x2, x3} = 4"
    using assms(1-3) by simp
  have "\<forall>i\<le>3. ?e i = 0"
  proof (rule ccontr)
    assume "\<not> (\<forall>i\<le>3. ?e i = 0)"
    then obtain j where "j \<le> 3" "?e j \<noteq> 0" by blast
    then have fin: "finite {z. (\<Sum>i\<le>3. ?e i * z ^ i) = 0}"
      and le: "card {z. (\<Sum>i\<le>3. ?e i * z ^ i) = 0} \<le> 3"
      using polyfun_rootbound[of ?e j 3] by auto
    have "card {x0, x1, x2, x3} \<le> card {z. (\<Sum>i\<le>3. ?e i * z ^ i) = 0}"
      using roots fin by (rule card_mono[rotated])
    then show False using card4 le by simp
  qed
  then have "(\<Sum>i\<le>3. ?e i * t ^ i) = 0"
    by simp
  then show ?thesis by (simp add: diff del: sum.atMost_Suc)
qed

lemma largest_le_at_sample:
  assumes "sorted_wrt (<) xs" and "0 \<le> j" and "j < int (length xs)"
  shows "largest_le xs (xs ! nat j) = j"
  using assms by (intro largest_le_unique) (simp_all add: nth_strict_mono)

text \<open>The window of the specification contains the sample that is queried.\<close>

lemma spec_interpolate_at_sample:
  assumes "4 \<le> n" and "n = int (length x_arr)" and "n = int (length y_arr)"
    and "sorted_wrt (<) x_arr" and "0 \<le> j" and "j < n"
  shows "spec_interpolate n x_arr y_arr (x_arr ! nat j) = y_arr ! nat j"
proof -
  define i where "i = spec_clamp n j"
  have i: "1 \<le> i" "i \<le> n - 3" "j = i - 1 \<or> j = i \<or> j = i + 1 \<or> j = i + 2"
    using assms(1,5,6) by (auto simp: i_def spec_clamp_def)
  have inc: "x_arr ! nat (i - 1) < x_arr ! nat i" "x_arr ! nat i < x_arr ! nat (i + 1)"
    "x_arr ! nat (i + 1) < x_arr ! nat (i + 2)"
    using i assms(2,4) by (auto intro!: nth_strict_mono)
  have "take (nat n) x_arr = x_arr" using assms(2) by simp
  then have "spec_interpolate n x_arr y_arr (x_arr ! nat j) =
      cubic4 (samples x_arr i) (samples y_arr i) (x_arr ! nat j)"
    using assms by (simp add: spec_interpolate_def Let_def largest_le_at_sample i_def)
  also have "\<dots> = y_arr ! nat j"
    using i(3) inc by (auto simp: samples_def cubic4_nodes)
  finally show ?thesis .
qed

text \<open>The program reproduces every sample but the last.\<close>

lemma interpolate_at_sample:
  assumes "4 \<le> n" and "n = int (length x_arr)" and "n = int (length y_arr)"
    and "sorted_wrt (<) x_arr" and "0 \<le> j" and "j < n - 1"
  shows "interpolate n x_arr y_arr (x_arr ! nat j) = Inr (y_arr ! nat j)"
proof -
  have "x_arr ! nat j < x_arr ! nat (n - 1)"
    using assms by (intro nth_strict_mono) simp_all
  then have "interpolate n x_arr y_arr (x_arr ! nat j)
      = Inr (spec_interpolate n x_arr y_arr (x_arr ! nat j))"
    using assms by (intro interpolate_below_last) simp_all
  then show ?thesis
    using spec_interpolate_at_sample[of n x_arr y_arr j] assms by simp
qed

text \<open>
  C4. The interpolator should evaluate the cubic through the samples
  \<open>{i - 1, i, i + 1, i + 2}\<close>, \<open>i\<close> the largest index with \<open>x[i] \<le> x_val\<close> clamped to
  \<open>[1, n - 3]\<close>, so that a query at the upper end of the table uses the last window.
  For a query at or above the last sample the loop finds no larger sample, leaves
  \<open>i = 0\<close>, and the first window is used: on the five samples 0, 1, 2, 3, 4 with values
  0, 0, 0, 0, 1 and the query 4.5 the program returns 0, where the window \<open>{1, 2, 3, 4}\<close>
  gives 35/16; on the silver table at 12.398 eV, the call made by \<open>epsAg(100)\<close>, the
  window of the specification is the one at 46 and the two values differ.
\<close>

theorem interpolate_above_last_uses_first_window:
  "scan 5 [0, 1, 2, 3, 4] 4.5 1 0 True = Inr 0
   \<and> clamp_index 5 0 = 1
   \<and> interpolate 5 [0, 1, 2, 3, 4] [0, 0, 0, 0, 1] 4.5 = Inr 0
   \<and> spec_clamp 5 (largest_le (take (nat 5) [0, 1, 2, 3, 4]) 4.5) = 2
   \<and> spec_interpolate 5 [0, 1, 2, 3, 4] [0, 0, 0, 0, 1] 4.5 = 35 / 16
   \<and> interpolate num_Ag energy_Ag ndata_Ag 12.398 = Inr (- (10929969534 / 1015625))
   \<and> spec_clamp num_Ag (largest_le (take (nat num_Ag) energy_Ag) 12.398) = 46
   \<and> spec_interpolate num_Ag energy_Ag ndata_Ag 12.398 = - (9476026 / 78125)"
proof -
  have "scan 5 [0, 1, 2, 3, 4] 4.5 1 0 True = Inr 0"
    by (simp add: scan.simps rd_def)
  moreover have "clamp_index 5 0 = 1"
    by (simp add: clamp_index_def)
  moreover have "interpolate 5 [0, 1, 2, 3, 4] [0, 0, 0, 0, 1] 4.5 = Inr 0"
    by (simp add: interpolate_def scan.simps rd_def clamp_index_def window_def lagrange4_def
        Let_def)
  moreover have "spec_clamp 5 (largest_le (take (nat 5) [0, 1, 2, 3, 4]) 4.5) = 2"
    by (simp add: spec_clamp_def Let_def)
  moreover have "spec_interpolate 5 [0, 1, 2, 3, 4] [0, 0, 0, 0, 1] 4.5 = 35 / 16"
    by (simp add: spec_interpolate_def spec_clamp_def samples_def cubic4_def Let_def)
  moreover have "interpolate num_Ag energy_Ag ndata_Ag 12.398 = Inr (- (10929969534 / 1015625))"
    by (simp add: interpolate_def scan.simps rd_def clamp_index_def window_def lagrange4_def
        Let_def num_Ag_def energy_Ag_def ndata_Ag_def)
  moreover have "spec_clamp num_Ag (largest_le (take (nat num_Ag) energy_Ag) 12.398) = 46"
    by (simp add: spec_clamp_def Let_def num_Ag_def energy_Ag_def)
  moreover have "spec_interpolate num_Ag energy_Ag ndata_Ag 12.398 = - (9476026 / 78125)"
    by (simp add: spec_interpolate_def spec_clamp_def samples_def cubic4_def Let_def
        num_Ag_def energy_Ag_def ndata_Ag_def)
  ultimately show ?thesis by blast
qed

text \<open>
  C5. A query at a sample's argument should return the sample's value. At the last
  sample it does not: on the five samples 0, 1, 2, 3, 4 with values 0, 0, 0, 0, 1 the
  query \<open>x[4] = 4\<close> returns 0 and not \<open>y[4] = 1\<close>, and on the silver table the query at
  the last energy 6.60 eV returns about \<open>- 1323\<close> and not the tabulated 1.07.
\<close>

theorem interpolate_misses_last_sample:
  "interpolate 5 [0, 1, 2, 3, 4] [0, 0, 0, 0, 1] ([0, 1, 2, 3, 4] ! 4) = Inr 0
   \<and> [0, 0, 0, 0, 1] ! 4 = (1::real)
   \<and> energy_Ag ! 48 = 6.60
   \<and> interpolate num_Ag energy_Ag ndata_Ag (energy_Ag ! 48) = Inr (- (408519213 / 308750))
   \<and> ndata_Ag ! 48 = 1.07"
proof -
  have "interpolate 5 [0, 1, 2, 3, 4] [0, 0, 0, 0, 1] ([0, 1, 2, 3, 4] ! 4) = Inr 0"
    by (simp add: interpolate_def scan.simps rd_def clamp_index_def window_def lagrange4_def
        Let_def)
  moreover have "[0, 0, 0, 0, 1] ! 4 = (1::real)"
    by simp
  moreover have "energy_Ag ! 48 = 6.60"
    by (simp add: energy_Ag_def)
  moreover
  have "interpolate num_Ag energy_Ag ndata_Ag (energy_Ag ! 48) = Inr (- (408519213 / 308750))"
    by (simp add: interpolate_def scan.simps rd_def clamp_index_def window_def lagrange4_def
        Let_def num_Ag_def energy_Ag_def ndata_Ag_def)
  moreover have "ndata_Ag ! 48 = 1.07"
    by (simp add: ndata_Ag_def)
  ultimately show ?thesis by blast
qed

section \<open>The polarizability and the cross sections\<close>

lemma IRE_one: "IRE = 1"
  by (simp add: IRE_def complex_eq_iff)

lemma IIM_imaginary_unit: "IIM = \<i>"
  by (simp add: IIM_def complex_eq_iff)

lemma Arc_eq:
  "1 * of_real s * of_real s * of_real a2
     + 4 * of_real pi * of_real pi * \<i> * of_real V1 * of_real s * of_real s * of_real s
       / of_real (3 * L * L * L)
     + 1 * of_real s * of_real s * of_real s * of_real s * of_real a4
   = of_real (s\<^sup>2 * a2) + \<i> * of_real (4 * pi\<^sup>2 / 3 * (V1 / L ^ 3) * s ^ 3)
     + (of_real (s ^ 4 * a4) :: complex)"
  by (simp add: power2_eq_square power3_eq_cube power4_eq_xxxx mult_ac)

text \<open>The expression of the program is the formula of the specification.\<close>

lemma dipPolariz_spec_alpha:
  "dipPolariz lambda eps_m eps_h L H R = spec_alpha lambda eps_m eps_h L H R"
proof -
  have beta: "- 0.649487 * (L / H) powr (- 1.27802) + 1.87718 * (L / R) powr (- 0.928178)
                 + 0.0784606 * (H / R) powr (- 0.619604) + 0.617065 = fit_beta L H R"
    by (simp add: fit_beta_def power_law4_def)
  have eps_c: "- 1.73983 * (L / H) powr 0.904851 + 23.7005 * (L / R) powr (- 9.71985)
                  + 3.73666 * (H / R) powr (- 0.416187) - 4.23387 = fit_eps_c L H R"
    by (simp add: fit_eps_c_def power_law4_def)
  have a2: "1.35181 * (L / H) powr (- 0.556507) + 1.13818 * (L / R) powr (- 0.483608)
               - 0.287856 * (H / R) powr (- 0.468685) - 0.0564038 = fit_a2 L H R"
    by (simp add: fit_a2_def power_law4_def)
  have a4: "- 2.58813 * (L / H) powr (- 0.447242) - 2.62882 * (L / R) powr (- 2.97322)
               - 0.254773 * (H / R) powr (- 0.125501) + 0.702526 = fit_a4 L H R"
    by (simp add: fit_a4_def power_law4_def)
  have s: "sqrt eps_h * L / lambda = spec_s lambda eps_h L"
    by (simp add: spec_s_def)
  have V1: "0.25 * sqrt 3 * L * L * H * fit_beta L H R = spec_V1 L H R"
    by (simp add: spec_V1_def prism_volume_def power2_eq_square)
  have "dipPolariz lambda eps_m eps_h L H R =
      of_real ((1 / (4 * pi)) * spec_V1 L H R)
      / (1 / (eps_m / of_real eps_h - 1) - 1 / of_real (fit_eps_c L H R - 1)
         - (1 * of_real (spec_s lambda eps_h L) * of_real (spec_s lambda eps_h L)
              * of_real (fit_a2 L H R)
            + 4 * of_real pi * of_real pi * \<i> * of_real (spec_V1 L H R)
              * of_real (spec_s lambda eps_h L) * of_real (spec_s lambda eps_h L)
              * of_real (spec_s lambda eps_h L) / of_real (3 * L * L * L)
            + 1 * of_real (spec_s lambda eps_h L) * of_real (spec_s lambda eps_h L)
              * of_real (spec_s lambda eps_h L) * of_real (spec_s lambda eps_h L)
              * of_real (fit_a4 L H R)))"
    by (simp only: dipPolariz_def Let_def beta eps_c a2 a4 s V1 IRE_one IIM_imaginary_unit)
  also have "\<dots> = spec_alpha lambda eps_m eps_h L H R"
    by (simp only: Arc_eq spec_alpha_def spec_Arc_def Let_def of_real_diff of_real_1)
  finally show ?thesis .
qed

text \<open>
  The condition that no divisor is zero, in the terms of the specification's formula.
\<close>

lemma dipPolariz_defined_iff:
  "dipPolariz_defined lambda eps_m eps_h L H R \<longleftrightarrow>
     eps_m / of_real eps_h - 1 \<noteq> 0 \<and> fit_eps_c L H R \<noteq> 1
     \<and> 1 / (eps_m / of_real eps_h - 1) - 1 / (of_real (fit_eps_c L H R) - 1)
         - spec_Arc lambda eps_h L H R \<noteq> 0"
proof -
  have beta: "- 0.649487 * (L / H) powr (- 1.27802) + 1.87718 * (L / R) powr (- 0.928178)
                 + 0.0784606 * (H / R) powr (- 0.619604) + 0.617065 = fit_beta L H R"
    by (simp add: fit_beta_def power_law4_def)
  have eps_c: "- 1.73983 * (L / H) powr 0.904851 + 23.7005 * (L / R) powr (- 9.71985)
                  + 3.73666 * (H / R) powr (- 0.416187) - 4.23387 = fit_eps_c L H R"
    by (simp add: fit_eps_c_def power_law4_def)
  have a2: "1.35181 * (L / H) powr (- 0.556507) + 1.13818 * (L / R) powr (- 0.483608)
               - 0.287856 * (H / R) powr (- 0.468685) - 0.0564038 = fit_a2 L H R"
    by (simp add: fit_a2_def power_law4_def)
  have a4: "- 2.58813 * (L / H) powr (- 0.447242) - 2.62882 * (L / R) powr (- 2.97322)
               - 0.254773 * (H / R) powr (- 0.125501) + 0.702526 = fit_a4 L H R"
    by (simp add: fit_a4_def power_law4_def)
  have s: "sqrt eps_h * L / lambda = spec_s lambda eps_h L"
    by (simp add: spec_s_def)
  have V1: "0.25 * sqrt 3 * L * L * H * fit_beta L H R = spec_V1 L H R"
    by (simp add: spec_V1_def prism_volume_def power2_eq_square)
  have "dipPolariz_defined lambda eps_m eps_h L H R \<longleftrightarrow>
      eps_m / of_real eps_h - 1 \<noteq> 0 \<and> fit_eps_c L H R - 1 \<noteq> 0
      \<and> 1 / (eps_m / of_real eps_h - 1) - 1 / of_real (fit_eps_c L H R - 1)
         - (1 * of_real (spec_s lambda eps_h L) * of_real (spec_s lambda eps_h L)
              * of_real (fit_a2 L H R)
            + 4 * of_real pi * of_real pi * \<i> * of_real (spec_V1 L H R)
              * of_real (spec_s lambda eps_h L) * of_real (spec_s lambda eps_h L)
              * of_real (spec_s lambda eps_h L) / of_real (3 * L * L * L)
            + 1 * of_real (spec_s lambda eps_h L) * of_real (spec_s lambda eps_h L)
              * of_real (spec_s lambda eps_h L) * of_real (spec_s lambda eps_h L)
              * of_real (fit_a4 L H R)) \<noteq> 0"
    by (simp only: dipPolariz_defined_def Let_def beta eps_c a2 a4 s V1 IRE_one IIM_imaginary_unit)
  also have "\<dots> \<longleftrightarrow> eps_m / of_real eps_h - 1 \<noteq> 0 \<and> fit_eps_c L H R \<noteq> 1
     \<and> 1 / (eps_m / of_real eps_h - 1) - 1 / (of_real (fit_eps_c L H R) - 1)
         - spec_Arc lambda eps_h L H R \<noteq> 0"
    by (simp only: Arc_eq spec_Arc_def Let_def of_real_diff of_real_1 right_minus_eq)
  finally show ?thesis .
qed

text \<open>The imaginary part of the denominator of the polarizability.\<close>

lemma Im_denominator:
  "Im (1 / (eps_m / of_real eps_h - 1) - 1 / (of_real e - 1) - spec_Arc lambda eps_h L H R)
   = Im (1 / (eps_m / of_real eps_h - 1))
     - 4 * pi\<^sup>2 / 3 * (spec_V1 L H R / L ^ 3) * (spec_s lambda eps_h L) ^ 3"
proof -
  have "Im (1 / (of_real e - 1 :: complex)) = 0"
    by (simp add: Im_divide)
  then show ?thesis
    by (simp add: spec_Arc_def Let_def)
qed

lemma Im_nonzero: "Im z \<noteq> 0 \<Longrightarrow> z \<noteq> 0"
  by auto

text \<open>A prism with \<open>L = 50\<close>, \<open>H = 20\<close>, \<open>R = 2\<close> nm: the fitted factor \<open>\<beta>\<close> is positive.\<close>

lemma fit_beta_50_20_2: "0 \<le> fit_beta 50 20 2"
proof -
  define a :: real where "a = 2.5 powr (- 1.27802)"
  define b :: real where "b = 25 powr (- 0.928178)"
  define c :: real where "c = 10 powr (- 0.619604)"
  have r: "(50::real) / 20 = 2.5" "(50::real) / 2 = 25" "(20::real) / 2 = 10"
    by simp_all
  have beta: "fit_beta 50 20 2 = - 0.649487 * a + 1.87718 * b + 0.0784606 * c + 0.617065"
    by (simp only: fit_beta_def power_law4_def r a_def b_def c_def)
  have "a \<le> (2.5::real) powr (- 1)"
    unfolding a_def by (rule powr_mono) simp_all
  then have "a \<le> 0.4" by (simp add: powr_minus_divide)
  moreover have "0 \<le> b" "0 \<le> c" by (simp_all add: b_def c_def)
  ultimately show ?thesis unfolding beta by simp
qed

text \<open>The same prism in a host with \<open>\<epsilon>\<^sub>h = 1\<close>, of a material with \<open>\<epsilon>\<^sub>m = - 10 + i\<close>, at 500 nm.\<close>

lemma fit_eps_c_50_20_2: "fit_eps_c 50 20 2 < 1"
proof -
  define a :: real where "a = 2.5 powr 0.904851"
  define b :: real where "b = 25 powr (- 9.71985)"
  define c :: real where "c = 10 powr (- 0.416187)"
  have r: "(50::real) / 20 = 2.5" "(50::real) / 2 = 25" "(20::real) / 2 = 10"
    by simp_all
  have e: "fit_eps_c 50 20 2 = - 1.73983 * a + 23.7005 * b + 3.73666 * c - 4.23387"
    by (simp only: fit_eps_c_def power_law4_def r a_def b_def c_def)
  have "0 \<le> a" by (simp add: a_def)
  moreover have "b \<le> (25::real) powr (- 1)"
    unfolding b_def by (rule powr_mono) simp_all
  hence "b \<le> 0.04" by (simp add: powr_minus_divide)
  moreover have "c \<le> (10::real) powr 0"
    unfolding c_def by (rule powr_mono) simp_all
  hence "c \<le> 1" by simp
  ultimately show ?thesis unfolding e by simp
qed

lemma Im_denominator_50_20_2:
  "Im (1 / (Complex (- 10) 1 / of_real 1 - 1))
     - 4 * pi\<^sup>2 / 3 * (spec_V1 50 20 2 / 50 ^ 3) * (spec_s 500 1 50) ^ 3 < 0"
proof -
  have z: "Im (1 / (Complex (- 10) 1 / of_real 1 - 1)) = - (1 / 122)"
    by (simp add: Im_divide power2_eq_square)
  have "0 \<le> spec_V1 50 20 2"
    using fit_beta_50_20_2 by (simp add: spec_V1_def prism_volume_def)
  moreover have "0 \<le> spec_s 500 1 50" by (simp add: spec_s_def)
  ultimately have "0 \<le> 4 * pi\<^sup>2 / 3 * (spec_V1 50 20 2 / 50 ^ 3) * (spec_s 500 1 50) ^ 3"
    by simp
  thus ?thesis unfolding z by simp
qed

lemma dipPolariz_defined_50_20_2: "dipPolariz_defined 500 (Complex (- 10) 1) 1 50 20 2"
proof -
  have "Complex (- 10) 1 / of_real 1 - 1 \<noteq> 0" by (simp add: complex_eq_iff)
  moreover have "fit_eps_c 50 20 2 \<noteq> 1" using fit_eps_c_50_20_2 by simp
  moreover have "Im (1 / (Complex (- 10) 1 / of_real 1 - 1) - 1 / (of_real (fit_eps_c 50 20 2) - 1)
      - spec_Arc 500 1 50 20 2) \<noteq> 0"
    using Im_denominator_50_20_2 by (simp only: Im_denominator)
  hence "1 / (Complex (- 10) 1 / of_real 1 - 1) - 1 / (of_real (fit_eps_c 50 20 2) - 1)
      - spec_Arc 500 1 50 20 2 \<noteq> 0" by (rule Im_nonzero)
  ultimately show ?thesis by (simp only: dipPolariz_defined_iff) simp
qed

text \<open>
  C2. For \<open>\<lambda> > 0\<close>, complex \<open>\<epsilon>\<^sub>m\<close>, \<open>\<epsilon>\<^sub>h > 0\<close> and \<open>L, H, R > 0\<close> such that no divisor of the
  expression is zero, \<open>dipPolariz\<close> returns
  \<open>\<alpha> = (1/(4\<pi>)) V1 / (1/(\<epsilon>\<^sub>m/\<epsilon>\<^sub>h - 1) - 1/(\<epsilon>\<^sub>c - 1) - A\<^sub>r\<^sub>c)\<close>, the denominator a difference of
  three terms, with \<open>s = sqrt \<epsilon>\<^sub>h L / \<lambda>\<close>, \<open>V0 = (sqrt 3 / 4) L\<^sup>2 H\<close>, \<open>V1 = V0 \<beta>\<close>,
  \<open>A\<^sub>r\<^sub>c = s\<^sup>2 a\<^sub>2 + i (4\<pi>\<^sup>2/3) (V1/L\<^sup>3) s\<^sup>3 + s\<^sup>4 a\<^sub>4\<close>, and \<open>\<beta>\<close>, \<open>\<epsilon>\<^sub>c\<close>, \<open>a\<^sub>2\<close>, \<open>a\<^sub>4\<close> each a sum of
  four power-law terms in \<open>L/H\<close>, \<open>L/R\<close>, \<open>H/R\<close> with the fitted constants. The divisors
  that positive inputs leave open are \<open>\<epsilon>\<^sub>m/\<epsilon>\<^sub>h - 1\<close>, \<open>\<epsilon>\<^sub>c - 1\<close> and the denominator of \<open>\<alpha>\<close>.
\<close>

theorem dipPolariz_formula:
  assumes "0 < lambda" and "0 < eps_h" and "0 < L" and "0 < H" and "0 < R"
    and "dipPolariz_defined lambda eps_m eps_h L H R"
  shows "dipPolariz lambda eps_m eps_h L H R = spec_alpha lambda eps_m eps_h L H R"
  by (rule dipPolariz_spec_alpha)

theorem dipPolariz_formula_witness:
  "(0::real) < 500 \<and> (0::real) < 1 \<and> (0::real) < 50 \<and> (0::real) < 20 \<and> (0::real) < 2
   \<and> dipPolariz_defined 500 (Complex (- 10) 1) 1 50 20 2
   \<and> dipPolariz 500 (Complex (- 10) 1) 1 50 20 2 = spec_alpha 500 (Complex (- 10) 1) 1 50 20 2"
  using dipPolariz_formula[of 500 1 50 20 2 "Complex (- 10) 1"] dipPolariz_defined_50_20_2
  by simp

text \<open>
  C6. For the same inputs \<open>scatCSdip\<close> returns \<open>(8\<pi>/3) k\<^sup>4 |\<alpha>|\<^sup>2 10\<^sup>-\<^sup>1\<^sup>4\<close> and \<open>extCSdip\<close> returns
  \<open>4\<pi> k Im \<alpha> 10\<^sup>-\<^sup>1\<^sup>4\<close>, with \<open>k = 2\<pi> sqrt \<epsilon>\<^sub>h / \<lambda>\<close> and \<open>\<alpha>\<close> the polarizability that each
  function computes by its own call of \<open>dipPolariz\<close> on the same inputs.
\<close>

theorem cross_sections_formula:
  assumes "0 < lambda" and "0 < eps_h" and "0 < L" and "0 < H" and "0 < R"
  shows "scatCSdip lambda eps_m eps_h L H R
         = spec_scattering lambda eps_h (dipPolariz lambda eps_m eps_h L H R)
     \<and> extCSdip lambda eps_m eps_h L H R
         = spec_extinction lambda eps_h (dipPolariz lambda eps_m eps_h L H R)"
  by (simp add: scatCSdip_def extCSdip_def spec_scattering_def spec_extinction_def spec_k_def
      Let_def)

theorem cross_sections_formula_witness:
  "(0::real) < 500 \<and> (0::real) < 1 \<and> (0::real) < 50 \<and> (0::real) < 20 \<and> (0::real) < 2
   \<and> scatCSdip 500 (Complex (- 10) 1) 1 50 20 2
         = spec_scattering 500 1 (dipPolariz 500 (Complex (- 10) 1) 1 50 20 2)
   \<and> extCSdip 500 (Complex (- 10) 1) 1 50 20 2
         = spec_extinction 500 1 (dipPolariz 500 (Complex (- 10) 1) 1 50 20 2)"
  using cross_sections_formula[of 500 1 50 20 2 "Complex (- 10) 1"] by simp

section \<open>The size correction\<close>

lemma epsAgSD_correction:
  "epsAg lambda = Inr e \<Longrightarrow>
   epsAgSD lambda D =
     Inr (e + spec_size_correction (6.582 / 10 ^ 16) (1.39 * 10 ^ 8) (5.2 / 10 ^ 6) 9.1 2.5 lambda D)"
  by (simp add: epsAgSD_def spec_size_correction_def drude_term_def spec_gamma_inf_def
      spec_gamma_r_def nm_per_cm_def IRE_one IIM_imaginary_unit Let_def power2_eq_square)

lemma epsAuSD_correction:
  "epsAu lambda = Inr e \<Longrightarrow>
   epsAuSD lambda D =
     Inr (e + spec_size_correction (6.582 / 10 ^ 16) (1.38 * 10 ^ 8) (1.28 / 10 ^ 6) 9.0 2.0 lambda D)"
  by (simp add: epsAuSD_def spec_size_correction_def drude_term_def spec_gamma_inf_def
      spec_gamma_r_def nm_per_cm_def IRE_one IIM_imaginary_unit Let_def power2_eq_square)

text \<open>The real part of the Drude term, and its strict decrease in the damping rate.\<close>

lemma Re_drude_term: "omega \<noteq> 0 \<Longrightarrow> Re (drude_term omega gam) = 1 / (omega\<^sup>2 + gam\<^sup>2)"
proof -
  assume w: "omega \<noteq> 0"
  have "Re (drude_term omega gam) = omega\<^sup>2 / ((omega\<^sup>2)\<^sup>2 + (omega * gam)\<^sup>2)"
    by (simp add: drude_term_def Re_divide)
  also have "\<dots> = omega\<^sup>2 / (omega\<^sup>2 * (omega\<^sup>2 + gam\<^sup>2))"
    by (simp add: power2_eq_square algebra_simps)
  also have "\<dots> = 1 / (omega\<^sup>2 + gam\<^sup>2)"
    using w by simp
  finally show ?thesis .
qed

lemma Re_drude_term_decreasing:
  assumes "omega \<noteq> 0" and "0 \<le> g1" and "g1 < g2"
  shows "0 < Re (drude_term omega g1 - drude_term omega g2)"
proof -
  have "g1\<^sup>2 < g2\<^sup>2"
    using assms(2,3) by (simp add: power_strict_mono)
  then have lt: "omega\<^sup>2 + g1\<^sup>2 < omega\<^sup>2 + g2\<^sup>2" by simp
  have p1: "0 < omega\<^sup>2 + g1\<^sup>2" and p2: "0 < omega\<^sup>2 + g2\<^sup>2"
    using assms(1) by (simp_all add: add_pos_nonneg)
  have "1 / (omega\<^sup>2 + g2\<^sup>2) < 1 / (omega\<^sup>2 + g1\<^sup>2)"
    using lt p1 p2 by (simp add: frac_less2)
  then show ?thesis
    using assms(1) by (simp add: Re_drude_term)
qed

lemma Re_spec_size_correction_pos:
  assumes "0 < lambda" and "0 < D" and "0 < hbar" and "0 < vF" and "0 < l_inf"
    and "0 < omega_p" and "0 < A"
  shows "0 < Re (spec_size_correction hbar vF l_inf omega_p A lambda D)"
proof -
  have w: "1239.8 / lambda \<noteq> 0" using assms(1) by simp
  have g0: "0 \<le> spec_gamma_inf hbar vF l_inf"
    using assms by (simp add: spec_gamma_inf_def)
  have "0 < A * hbar * (vF * nm_per_cm) * (2 / D)"
    using assms by (simp add: nm_per_cm_def)
  then have g1: "spec_gamma_inf hbar vF l_inf < spec_gamma_r hbar vF l_inf A D"
    by (simp add: spec_gamma_r_def)
  have "0 < Re (drude_term (1239.8 / lambda) (spec_gamma_inf hbar vF l_inf)
               - drude_term (1239.8 / lambda) (spec_gamma_r hbar vF l_inf A D))"
    using w g0 g1 by (rule Re_drude_term_decreasing)
  moreover have "0 < omega_p\<^sup>2" using assms(6) by simp
  ultimately have "0 < omega_p\<^sup>2
      * Re (drude_term (1239.8 / lambda) (spec_gamma_inf hbar vF l_inf)
            - drude_term (1239.8 / lambda) (spec_gamma_r hbar vF l_inf A D))"
    by (rule mult_pos_pos[rotated])
  then show ?thesis
    by (simp add: spec_size_correction_def Let_def)
qed

text \<open>
  C3. For \<open>\<lambda> > 0\<close> and \<open>D > 0\<close> the size-corrected permittivity is the tabulated value
  plus \<open>\<omega>\<^sub>p\<^sup>2 (1/(\<omega>\<^sup>2 + i\<omega>\<gamma>\<^sub>i\<^sub>n\<^sub>f) - 1/(\<omega>\<^sup>2 + i\<omega>\<gamma>\<^sub>r))\<close> with \<open>\<omega> = 1239.8/\<lambda>\<close>,
  \<open>\<gamma>\<^sub>i\<^sub>n\<^sub>f = \<hbar> v\<^sub>F / l\<^sub>i\<^sub>n\<^sub>f\<close> and \<open>\<gamma>\<^sub>r = \<gamma>\<^sub>i\<^sub>n\<^sub>f + A \<hbar> v\<^sub>F (2/D)\<close>, \<open>D\<close> in nm, for the constants
  \<open>(v\<^sub>F, l\<^sub>i\<^sub>n\<^sub>f, \<omega>\<^sub>p, A)\<close> = (1.39e8 cm/s, 5.2e-6 cm, 9.1 eV, 2.5) of silver and
  (1.38e8 cm/s, 1.28e-6 cm, 9.0 eV, 2.0) of gold, and \<open>\<hbar>\<close> = 6.582e-16 eV s. The factor
  \<open>1.0e7\<close> of the program is the number of nm in a cm, which takes \<open>v\<^sub>F\<close> to nm/s.
\<close>

theorem size_correction_formula:
  assumes "0 < lambda" and "0 < D"
  shows "(\<exists>e. epsAg lambda = Inr e
            \<and> epsAgSD lambda D =
                Inr (e + spec_size_correction (6.582 / 10 ^ 16) (1.39 * 10 ^ 8) (5.2 / 10 ^ 6)
                           9.1 2.5 lambda D))
       \<and> (\<exists>e. epsAu lambda = Inr e
            \<and> epsAuSD lambda D =
                Inr (e + spec_size_correction (6.582 / 10 ^ 16) (1.38 * 10 ^ 8) (1.28 / 10 ^ 6)
                           9.0 2.0 lambda D))"
  using epsAg_total[of lambda] epsAu_total[of lambda]
  by (auto simp: epsAgSD_correction epsAuSD_correction)

theorem size_correction_formula_witness:
  "(0::real) < 500 \<and> (0::real) < 30
       \<and> (\<exists>e. epsAg 500 = Inr e
            \<and> epsAgSD 500 30 =
                Inr (e + spec_size_correction (6.582 / 10 ^ 16) (1.39 * 10 ^ 8) (5.2 / 10 ^ 6)
                           9.1 2.5 500 30))
       \<and> (\<exists>e. epsAu 500 = Inr e
            \<and> epsAuSD 500 30 =
                Inr (e + spec_size_correction (6.582 / 10 ^ 16) (1.38 * 10 ^ 8) (1.28 / 10 ^ 6)
                           9.0 2.0 500 30))"
  using size_correction_formula[of 500 30] by simp

text \<open>
  C10, as amended. In exact arithmetic, for \<open>\<lambda> > 0\<close> and \<open>D > 0\<close> the size correction
  strictly increases the real part of the permittivity, for silver and for gold.
\<close>

theorem size_correction_raises_real_part:
  assumes "0 < lambda" and "0 < D"
  shows "(\<exists>e e'. epsAg lambda = Inr e \<and> epsAgSD lambda D = Inr e' \<and> Re e < Re e')
       \<and> (\<exists>e e'. epsAu lambda = Inr e \<and> epsAuSD lambda D = Inr e' \<and> Re e < Re e')"
proof -
  obtain e where e: "epsAg lambda = Inr e"
    using epsAg_total[of lambda] by blast
  obtain f where f: "epsAu lambda = Inr f"
    using epsAu_total[of lambda] by blast
  have "0 < Re (spec_size_correction (6.582 / 10 ^ 16) (1.39 * 10 ^ 8) (5.2 / 10 ^ 6) 9.1 2.5 lambda D)"
    using assms by (intro Re_spec_size_correction_pos) simp_all
  then have ag: "\<exists>e e'. epsAg lambda = Inr e \<and> epsAgSD lambda D = Inr e' \<and> Re e < Re e'"
    using e epsAgSD_correction[OF e, of D] by simp
  have "0 < Re (spec_size_correction (6.582 / 10 ^ 16) (1.38 * 10 ^ 8) (1.28 / 10 ^ 6) 9.0 2.0 lambda D)"
    using assms by (intro Re_spec_size_correction_pos) simp_all
  then have au: "\<exists>e e'. epsAu lambda = Inr e \<and> epsAuSD lambda D = Inr e' \<and> Re e < Re e'"
    using f epsAuSD_correction[OF f, of D] by simp
  show ?thesis using ag au by blast
qed

theorem size_correction_raises_real_part_witness:
  "(0::real) < 500 \<and> (0::real) < 30
       \<and> (\<exists>e e'. epsAg 500 = Inr e \<and> epsAgSD 500 30 = Inr e' \<and> Re e < Re e')
       \<and> (\<exists>e e'. epsAu 500 = Inr e \<and> epsAuSD 500 30 = Inr e' \<and> Re e < Re e')"
  using size_correction_raises_real_part[of 500 30] by simp

section \<open>The size correction on doubles\<close>

text \<open>
  A size of \<open>2\<^sup>1\<^sup>0\<^sup>0\<close> nm at the wavelength 500 nm. The rate \<open>gam_inf\<close> lies between \<open>2\<^sup>-\<^sup>6\<close>
  and \<open>2\<^sup>-\<^sup>5\<close>, where the doubles are \<open>2\<^sup>-\<^sup>5\<^sup>8\<close> apart.
\<close>

text \<open>The relaxation rate \<open>gam_inf\<close> of silver lies between \<open>2\<^sup>-\<^sup>6\<close> and \<open>2\<^sup>-\<^sup>5\<close>.\<close>

lemma Ag_gam_inf:
  "\<exists>g. ddiv (dmul (to_double (6.582 / 10 ^ 16)) (to_double (1.39 * 10 ^ 8))) (to_double (5.2 / 10 ^ 6)) = Fin g
       \<and> 0.0169 \<le> g \<and> g \<le> 0.0183 \<and> to_double g = Fin g"
proof -
  note sn = order_trans [OF small_normal]
  note ln = le_less_trans [OF _ large_normal]
  obtain h where h: "to_double (6.582 / 10 ^ 16) = Fin h" "6.57 / 10 ^ 16 \<le> h" "h \<le> 6.59 / 10 ^ 16"
  proof -
    have "\<exists>r. to_double (6.582 / 10 ^ 16) = Fin r \<and> 6.582 / 10 ^ 16 * (999 / 1000) \<le> r
             \<and> r \<le> 6.582 / 10 ^ 16 * (1001 / 1000)"
      by (rule to_double_within) (auto intro!: sn ln)
    thus ?thesis using that by auto
  qed
  obtain v where v: "to_double (1.39 * 10 ^ 8) = Fin v" "1.38 * 10 ^ 8 \<le> v" "v \<le> 1.40 * 10 ^ 8"
  proof -
    have "\<exists>r. to_double (1.39 * 10 ^ 8) = Fin r \<and> 1.39 * 10 ^ 8 * (999 / 1000) \<le> r
             \<and> r \<le> 1.39 * 10 ^ 8 * (1001 / 1000)"
      by (rule to_double_within) (auto intro!: sn ln)
    thus ?thesis using that by auto
  qed
  obtain l where l: "to_double (5.2 / 10 ^ 6) = Fin l" "5.1 / 10 ^ 6 \<le> l" "l \<le> 5.3 / 10 ^ 6"
  proof -
    have "\<exists>r. to_double (5.2 / 10 ^ 6) = Fin r \<and> 5.2 / 10 ^ 6 * (999 / 1000) \<le> r
             \<and> r \<le> 5.2 / 10 ^ 6 * (1001 / 1000)"
      by (rule to_double_within) (auto intro!: sn ln)
    thus ?thesis using that by auto
  qed
  obtain p where p: "dmul (Fin h) (Fin v) = Fin p" "9 / 10 ^ 8 \<le> p" "p \<le> 9.3 / 10 ^ 8"
  proof -
    have "\<exists>r. dmul (Fin h) (Fin v) = Fin r \<and> 6.57 / 10 ^ 16 * (1.38 * 10 ^ 8) * (999 / 1000) \<le> r
             \<and> r \<le> 6.59 / 10 ^ 16 * (1.40 * 10 ^ 8) * (1001 / 1000)"
      using h(2,3) v(2,3) by (rule dmul_within) (auto intro!: sn ln)
    thus ?thesis using that by auto
  qed
  obtain g where g: "ddiv (Fin p) (Fin l) = Fin g" "0.0169 \<le> g" "g \<le> 0.0183"
  proof -
    have "\<exists>r. ddiv (Fin p) (Fin l) = Fin r \<and> 9 / 10 ^ 8 / (5.3 / 10 ^ 6) * (999 / 1000) \<le> r
             \<and> r \<le> 9.3 / 10 ^ 8 / (5.1 / 10 ^ 6) * (1001 / 1000)"
      using p(2,3) l(2,3) by (rule ddiv_within) (auto intro!: sn ln)
    thus ?thesis using that by auto
  qed
  have "l \<noteq> 0" using l(2) by auto
  hence "to_double (p / l) = Fin g" using g(1) by simp
  hence "to_double g = Fin g" by (rule to_double_idem)
  thus ?thesis unfolding h(1) v(1) l(1) p(1) using g by blast
qed

text \<open>The term of \<open>gam_r\<close> that depends on the size, for \<open>D = 2\<^sup>1\<^sup>0\<^sup>0\<close>.\<close>

lemma Ag_size_term:
  "\<exists>t. dmul (dmul (dmul (dmul (to_double 2.5) (to_double (6.582 / 10 ^ 16))) (to_double (1.39 * 10 ^ 8)))
                   (to_double (10 ^ 7)))
             (ddiv (to_double 2) (Fin (2 ^ 100))) = Fin t
       \<and> 0 \<le> t \<and> t \<le> 16000 / 2 ^ 100"
proof -
  note ln = le_less_trans [OF _ large_normal]
  obtain a where a: "to_double 2.5 = Fin a" "0 \<le> a" "a \<le> 5"
    using to_double_nonneg [of "2.5"] by auto
  obtain h where h: "to_double (6.582 / 10 ^ 16) = Fin h" "0 \<le> h" "h \<le> 2 / 10 ^ 15"
    using to_double_nonneg [of "6.582 / 10 ^ 16"] by auto
  obtain v where v: "to_double (1.39 * 10 ^ 8) = Fin v" "0 \<le> v" "v \<le> 3 * 10 ^ 8"
    using to_double_nonneg [of "1.39 * 10 ^ 8"] by auto
  obtain c where c: "to_double (10 ^ 7) = Fin c" "0 \<le> c" "c \<le> 2 * 10 ^ 7"
    using to_double_nonneg [of "10 ^ 7"] by auto
  obtain t where t: "to_double 2 = Fin t" "0 \<le> t" "t \<le> 4"
    using to_double_nonneg [of 2] by auto
  obtain r1 where r1: "dmul (Fin a) (Fin h) = Fin r1" "0 \<le> r1" "r1 \<le> 2 / 10 ^ 14"
  proof -
    have "\<exists>r. dmul (Fin a) (Fin h) = Fin r \<and> 0 \<le> r \<and> r \<le> 2 * (5 * (2 / 10 ^ 15))"
      using a(2,3) h(2,3) by (rule dmul_nonneg) (auto intro!: ln)
    thus ?thesis using that by auto
  qed
  obtain r2 where r2: "dmul (Fin r1) (Fin v) = Fin r2" "0 \<le> r2" "r2 \<le> 2 / 10 ^ 5"
  proof -
    have "\<exists>r. dmul (Fin r1) (Fin v) = Fin r \<and> 0 \<le> r \<and> r \<le> 2 * (2 / 10 ^ 14 * (3 * 10 ^ 8))"
      using r1(2,3) v(2,3) by (rule dmul_nonneg) (auto intro!: ln)
    thus ?thesis using that by auto
  qed
  obtain r3 where r3: "dmul (Fin r2) (Fin c) = Fin r3" "0 \<le> r3" "r3 \<le> 1000"
  proof -
    have "\<exists>r. dmul (Fin r2) (Fin c) = Fin r \<and> 0 \<le> r \<and> r \<le> 2 * (2 / 10 ^ 5 * (2 * 10 ^ 7))"
      using r2(2,3) c(2,3) by (rule dmul_nonneg) (auto intro!: ln)
    thus ?thesis using that by auto
  qed
  obtain q where q: "ddiv (Fin t) (Fin (2 ^ 100)) = Fin q" "0 \<le> q" "q \<le> 8 / 2 ^ 100"
  proof -
    have "0 \<le> t / 2 ^ 100" using t(2) by simp
    moreover have "t / 2 ^ 100 \<le> 4" using t(2,3) by (simp add: field_simps)
    hence "t / 2 ^ 100 < 2 ^ 1023" by (rule le_less_trans) simp
    ultimately obtain r where r: "to_double (t / 2 ^ 100) = Fin r" "0 \<le> r" "r \<le> 2 * (t / 2 ^ 100)"
      using to_double_nonneg by blast
    have "2 * (t / 2 ^ 100) \<le> 8 / 2 ^ 100" using t(3) by (simp add: field_simps)
    thus ?thesis using that [of r] r by simp
  qed
  have "\<exists>r. dmul (Fin r3) (Fin q) = Fin r \<and> 0 \<le> r \<and> r \<le> 2 * (1000 * (8 / 2 ^ 100))"
    using r3(2,3) q(2,3) by (rule dmul_nonneg) simp
  thus ?thesis unfolding a(1) h(1) v(1) c(1) t(1) r1(1) r2(1) r3(1) q(1) by simp
qed

text \<open>The sum of the two is \<open>gam_inf\<close> again: the size term is below half a unit in its last place.\<close>

lemma Ag_rates_absorb:
  "dadd (ddiv (dmul (to_double (6.582 / 10 ^ 16)) (to_double (1.39 * 10 ^ 8))) (to_double (5.2 / 10 ^ 6)))
        (dmul (dmul (dmul (dmul (to_double 2.5) (to_double (6.582 / 10 ^ 16))) (to_double (1.39 * 10 ^ 8)))
                    (to_double (10 ^ 7)))
              (ddiv (to_double 2) (Fin (2 ^ 100))))
   = ddiv (dmul (to_double (6.582 / 10 ^ 16)) (to_double (1.39 * 10 ^ 8))) (to_double (5.2 / 10 ^ 6))"
proof -
  obtain g where g: "ddiv (dmul (to_double (6.582 / 10 ^ 16)) (to_double (1.39 * 10 ^ 8)))
        (to_double (5.2 / 10 ^ 6)) = Fin g" "0.0169 \<le> g" "g \<le> 0.0183" "to_double g = Fin g"
    using Ag_gam_inf by blast
  obtain t where t: "dmul (dmul (dmul (dmul (to_double 2.5) (to_double (6.582 / 10 ^ 16)))
        (to_double (1.39 * 10 ^ 8))) (to_double (10 ^ 7))) (ddiv (to_double 2) (Fin (2 ^ 100))) = Fin t"
      "0 \<le> t" "t \<le> 16000 / 2 ^ 100"
    using Ag_size_term by blast
  have "to_double (g + t) = Fin g"
  proof (rule to_double_absorb [where e = "- 6"])
    show "to_double g = Fin g" by (rule g(4))
    show "2 powr of_int (- 6) \<le> g" using g(2) by (simp add: powr_minus_divide)
    have "t \<le> 1 / 1000"
      using t(3) by (rule order_trans) simp
    thus "g + t < 2 powr (of_int (- 6) + 1)" using g(3) by (simp add: powr_minus_divide)
    show "0 \<le> t" by (rule t(2))
    have "(16000::real) / 2 ^ 100 < 1 / 2 ^ 59" by simp
    thus "t < 2 powr of_int (- 6 - 53)" using t(3) by (simp add: powr_minus_divide)
    show "- 1022 \<le> (- 6 :: int)" by simp
  qed
  thus ?thesis unfolding g(1) t(1) by simp
qed

text \<open>The photon energy at 500 nm.\<close>

lemma omega_500:
  "\<exists>w. ddiv (to_double 1239.8) (Fin 500) = Fin w \<and> 2 \<le> w \<and> w \<le> 3 \<and> to_double w = Fin w"
proof -
  note sn = order_trans [OF small_normal]
  note ln = le_less_trans [OF _ large_normal]
  obtain c where c: "to_double 1239.8 = Fin c" "1238 \<le> c" "c \<le> 1242"
  proof -
    have "\<exists>r. to_double 1239.8 = Fin r \<and> 1239.8 * (999 / 1000) \<le> r \<and> r \<le> 1239.8 * (1001 / 1000)"
      by (rule to_double_within) (auto intro!: sn ln)
    thus ?thesis using that by auto
  qed
  obtain w where w: "ddiv (Fin c) (Fin 500) = Fin w" "2 \<le> w" "w \<le> 3"
  proof -
    have "\<exists>r. ddiv (Fin c) (Fin 500) = Fin r \<and> 1238 / 500 * (999 / 1000) \<le> r
             \<and> r \<le> 1242 / 500 * (1001 / 1000)"
      using c(2,3) by (rule ddiv_within) (auto intro!: sn ln)
    thus ?thesis using that by auto
  qed
  have "to_double (c / 500) = Fin w" using w(1) by simp
  hence "to_double w = Fin w" by (rule to_double_idem)
  thus ?thesis unfolding c(1) using w by blast
qed

text \<open>The quotient of the Drude term is a pair of finite numbers.\<close>

lemma drude_quotient_finite:
  assumes w: "2 \<le> w" "w \<le> 3" "to_double w = Fin w"
    and g: "0.0169 \<le> g" "g \<le> 0.0183" "to_double g = Fin g"
  shows "\<exists>xr xi. cdiv IRE_d (cadd (cscale (cscale IRE_d (Fin w)) (Fin w))
                                   (cscale (cscale IIM_d (Fin w)) (Fin g))) = (Fin xr, Fin xi)"
proof -
  note sn = order_trans [OF small_normal]
  note ln = le_less_trans [OF _ large_normal]
  obtain w2 where w2: "dmul (Fin w) (Fin w) = Fin w2" "3 \<le> w2" "w2 \<le> 10"
  proof -
    have "\<exists>r. dmul (Fin w) (Fin w) = Fin r \<and> 2 * 2 * (999 / 1000) \<le> r \<and> r \<le> 3 * 3 * (1001 / 1000)"
      using w(1,2) w(1,2) by (rule dmul_within) (auto intro!: sn ln)
    thus ?thesis using that by auto
  qed
  obtain wg where wg: "dmul (Fin w) (Fin g) = Fin wg" "0.03 \<le> wg" "wg \<le> 0.06"
  proof -
    have "\<exists>r. dmul (Fin w) (Fin g) = Fin r \<and> 2 * 0.0169 * (999 / 1000) \<le> r
             \<and> r \<le> 3 * 0.0183 * (1001 / 1000)"
      using w(1,2) g(1,2) by (rule dmul_within) (auto intro!: sn ln)
    thus ?thesis using that by auto
  qed
  have w2i: "to_double w2 = Fin w2" using w2(1) by (auto dest: to_double_idem)
  have wgi: "to_double wg = Fin wg" using wg(1) by (auto dest: to_double_idem)
  have s1: "cscale IRE_d (Fin w) = (Fin w, Fin 0)"
    by (simp only: cscale_def IRE_d_def fst_conv snd_conv dmul_one_left [OF w(3)] dmul_zero_left)
  have s2: "cscale (Fin w, Fin 0) (Fin w) = (Fin w2, Fin 0)"
    by (simp only: cscale_def fst_conv snd_conv w2(1) dmul_zero_left)
  have s3: "cscale IIM_d (Fin w) = (Fin 0, Fin w)"
    by (simp only: cscale_def IIM_d_def fst_conv snd_conv dmul_one_left [OF w(3)] dmul_zero_left)
  have s4: "cscale (Fin 0, Fin w) (Fin g) = (Fin 0, Fin wg)"
    by (simp only: cscale_def fst_conv snd_conv wg(1) dmul_zero_left)
  have den: "cadd (cscale (cscale IRE_d (Fin w)) (Fin w)) (cscale (cscale IIM_d (Fin w)) (Fin g))
             = (Fin w2, Fin wg)"
    by (simp only: s1 s2 s3 s4 cadd_def fst_conv snd_conv dadd_Fin_zero [OF w2i]
        dadd_zero_Fin [OF wgi])
  obtain cc where cc: "dmul (Fin w2) (Fin w2) = Fin cc" "8 \<le> cc" "cc \<le> 101"
  proof -
    have "\<exists>r. dmul (Fin w2) (Fin w2) = Fin r \<and> 3 * 3 * (999 / 1000) \<le> r \<and> r \<le> 10 * 10 * (1001 / 1000)"
      using w2(2,3) w2(2,3) by (rule dmul_within) (auto intro!: sn ln)
    thus ?thesis using that by auto
  qed
  obtain dd where dd: "dmul (Fin wg) (Fin wg) = Fin dd" "0 \<le> dd" "dd \<le> 1"
  proof -
    have "\<exists>r. dmul (Fin wg) (Fin wg) = Fin r \<and> 0 \<le> r \<and> r \<le> 2 * (0.06 * 0.06)"
      using wg(2,3) by (intro dmul_nonneg) (auto intro!: ln)
    thus ?thesis using that by auto
  qed
  obtain m where m: "dadd (Fin cc) (Fin dd) = Fin m" "7 \<le> m"
  proof -
    have "\<exists>r. to_double (cc + dd) = Fin r \<and> 8 * (999 / 1000) \<le> r \<and> r \<le> 102 * (1001 / 1000)"
      using cc(2,3) dd(2,3) by (intro to_double_within) (auto intro!: sn ln)
    thus ?thesis using that by auto
  qed
  have m0: "m \<noteq> 0" using m(2) by simp
  have big: "(2::real) < 2 ^ 1023" using power_strict_increasing [of 1 1023 "2::real"] by simp
  obtain xr where xr: "to_double (w2 / m) = Fin xr"
  proof -
    have am: "\<bar>m\<bar> = m" and aw: "\<bar>w2\<bar> = w2" using m(2) w2(2) by simp_all
    have "w2 / m \<le> 10 / 7" using w2(2,3) m(2) by (intro frac_le) simp_all
    hence "\<bar>w2 / m\<bar> \<le> 10 / 7" by (simp only: abs_divide am aw)
    hence "\<bar>w2 / m\<bar> < 2 ^ 1023" using big by linarith
    thus ?thesis using to_double_finite that by blast
  qed
  obtain ni where ni: "to_double (- wg) = Fin ni" "\<bar>ni\<bar> \<le> 1"
  proof -
    have "\<bar>- wg\<bar> \<le> 1" using wg(2,3) by simp
    hence "\<bar>- wg\<bar> < 2 ^ 1023" using big by linarith
    then obtain r where r: "to_double (- wg) = Fin r" "\<bar>r\<bar> \<le> 2 * \<bar>- wg\<bar>"
      using to_double_finite by blast
    have "2 * \<bar>- wg\<bar> \<le> 1" using wg(2,3) by simp
    hence "\<bar>r\<bar> \<le> 1" using r(2) by linarith
    thus ?thesis using that [of r] r(1) by blast
  qed
  obtain xi where xi: "to_double (ni / m) = Fin xi"
  proof -
    have am: "\<bar>m\<bar> = m" using m(2) by simp
    have "\<bar>ni\<bar> / m \<le> 1 / 7" using ni(2) m(2) by (intro frac_le) simp_all
    hence "\<bar>ni / m\<bar> \<le> 1 / 7" by (simp only: abs_divide am)
    hence "\<bar>ni / m\<bar> < 2 ^ 1023" using big by linarith
    thus ?thesis using to_double_finite that by blast
  qed
  have q1: "ddiv (Fin w2) (Fin m) = Fin xr" using m0 xr by simp
  have q2: "ddiv (Fin ni) (Fin m) = Fin xi" using m0 xi by simp
  have q3: "dsub (Fin 0) (Fin wg) = Fin ni" using ni(1) by (simp add: dsub_def)
  have "cdiv IRE_d (Fin w2, Fin wg) = (Fin xr, Fin xi)"
    by (simp only: cdiv_def Let_def IRE_d_def fst_conv snd_conv cc(1) dd(1) m(1)
        dmul_one_left [OF w2i] dmul_one_left [OF wgi] dmul_zero_left dadd_Fin_zero [OF w2i]
        q1 q2 q3)
  thus ?thesis unfolding den by blast
qed

text \<open>
  At \<open>D = 2\<^sup>1\<^sup>0\<^sup>0\<close> the two relaxation rates are the same double, the two quotients of the
  Drude term are equal, and the size-corrected function returns the value of \<open>epsAg\<close>.
\<close>

lemma epsAgSD_d_no_correction: "epsAgSD_d (Fin 500) (Fin (2 ^ 100)) = epsAg_d (Fin 500)"
proof -
  obtain p q p' q' where e: "epsAg_d (Fin 500) = Inr (dadd p q, dadd p' q')"
    using epsAg_d_total by blast
  obtain w where w: "ddiv (to_double 1239.8) (Fin 500) = Fin w" "2 \<le> w" "w \<le> 3" "to_double w = Fin w"
    using omega_500 by blast
  obtain g where g: "ddiv (dmul (to_double (6.582 / 10 ^ 16)) (to_double (1.39 * 10 ^ 8)))
        (to_double (5.2 / 10 ^ 6)) = Fin g" "0.0169 \<le> g" "g \<le> 0.0183" "to_double g = Fin g"
    using Ag_gam_inf by blast
  obtain xr xi where x: "cdiv IRE_d (cadd (cscale (cscale IRE_d (Fin w)) (Fin w))
      (cscale (cscale IIM_d (Fin w)) (Fin g))) = (Fin xr, Fin xi)"
    using drude_quotient_finite [OF w(2,3,4) g(2,3,4)] by blast
  obtain wp where wp: "to_double 9.1 = Fin wp" "0 \<le> wp" "wp \<le> 20"
    using to_double_nonneg [of "9.1"] by auto
  have "(20::real) * 20 < 2 ^ 1023" by (rule le_less_trans [OF _ large_normal]) simp
  then obtain wp2 where wp2: "dmul (Fin wp) (Fin wp) = Fin wp2"
    using dmul_nonneg [OF wp(2,3) wp(2,3)] by blast
  show ?thesis
    unfolding epsAgSD_d_def Let_def Ag_rates_absorb
    unfolding e w(1) g(1) x wp(1) wp2
    by (simp only: and_then_Inr csub_def cscale_def cadd_def fst_conv snd_conv dsub_self_Fin
        dmul_zero_left dadd_zero_right)
qed

text \<open>
  C10, the value on doubles. \<open>500\<close> and \<open>2\<^sup>1\<^sup>0\<^sup>0\<close> are positive doubles; \<open>epsAg\<close> returns a
  value for the wavelength 500 nm, and \<open>epsAgSD\<close> returns the same value for this
  wavelength and the size \<open>2\<^sup>1\<^sup>0\<^sup>0\<close> nm: the real part is not increased.
\<close>

theorem size_correction_lost_on_doubles:
  "(0::real) < 500 \<and> (0::real) < 2 ^ 100
   \<and> to_double 500 = Fin 500 \<and> to_double (2 ^ 100) = Fin (2 ^ 100)
   \<and> \<not> isl (epsAg_d (Fin 500))
   \<and> epsAgSD_d (Fin 500) (Fin (2 ^ 100)) = epsAg_d (Fin 500)"
proof -
  obtain p q p' q' where "epsAg_d (Fin 500) = Inr (dadd p q, dadd p' q')"
    using epsAg_d_total by blast
  hence "\<not> isl (epsAg_d (Fin 500))" by simp
  thus ?thesis
    using double_500 double_2_100 epsAgSD_d_no_correction by simp
qed

section \<open>Bounds for pi and the square root of 3\<close>

lemma sin_cubic_bounds:
  fixes x :: real
  assumes "0 \<le> x"
  shows "x - x ^ 3 / 6 - x ^ 5 / 120 \<le> sin x" and "sin x \<le> x - x ^ 3 / 6 + x ^ 5 / 120"
proof -
  have "(\<Sum>m<5. g m) = g 0 + g 1 + g 2 + g 3 + g 4" for g :: "nat \<Rightarrow> real"
    by (simp add: eval_nat_numeral)
  moreover have "sin_coeff 0 = 0" "sin_coeff 1 = 1" "sin_coeff 2 = 0" "sin_coeff 3 = - 1 / 6"
    "sin_coeff 4 = 0"
    by (simp_all add: sin_coeff_def fact_numeral)
  ultimately have s: "(\<Sum>m<5. sin_coeff m * x ^ m) = x - x ^ 3 / 6"
    by simp
  have "\<bar>sin x - (x - x ^ 3 / 6)\<bar> \<le> inverse (fact 5) * \<bar>x\<bar> ^ 5"
    using Maclaurin_sin_bound[of x 5] by (simp only: s)
  moreover have "inverse (fact 5) * \<bar>x\<bar> ^ 5 = x ^ 5 / 120"
    using assms by (simp add: fact_numeral)
  ultimately have "\<bar>sin x - (x - x ^ 3 / 6)\<bar> \<le> x ^ 5 / 120" by simp
  then show "x - x ^ 3 / 6 - x ^ 5 / 120 \<le> sin x" and "sin x \<le> x - x ^ 3 / 6 + x ^ 5 / 120"
    by linarith+
qed

lemma pi_upper: "pi < 3.147"
proof -
  have "1 / 2 < 0.5245 - 0.5245 ^ 3 / 6 - 0.5245 ^ 5 / (120::real)"
    by (simp add: power_divide)
  also have "\<dots> \<le> sin 0.5245" by (rule sin_cubic_bounds) simp
  finally have "sin (pi / 6) < sin 0.5245" by (simp add: sin_30)
  moreover have "(0.5245::real) \<le> pi / 2" using pi_ge_two by simp
  moreover have "- (pi / 2) \<le> pi / 6" "pi / 6 \<le> pi / 2" "- (pi / 2) \<le> 0.5245"
    using pi_ge_two by simp_all
  ultimately have "pi / 6 < 0.5245"
    by (simp add: sin_mono_less_eq)
  then show ?thesis by simp
qed

lemma pi_lower: "3.136 < pi"
proof -
  have "sin 0.5227 \<le> 0.5227 - 0.5227 ^ 3 / 6 + 0.5227 ^ 5 / (120::real)"
    by (rule sin_cubic_bounds) simp
  also have "\<dots> < 1 / 2" by (simp add: power_divide)
  finally have "sin 0.5227 < sin (pi / 6)" by (simp add: sin_30)
  moreover have "(0.5227::real) \<le> pi / 2" using pi_ge_two by simp
  moreover have "- (pi / 2) \<le> pi / 6" "pi / 6 \<le> pi / 2" "- (pi / 2) \<le> 0.5227"
    using pi_ge_two by simp_all
  ultimately have "0.5227 < pi / 6"
    by (simp add: sin_mono_less_eq)
  then show ?thesis by simp
qed

lemma sqrt3_lower: "1.732 < sqrt 3"
  by (rule real_less_rsqrt) (simp add: power2_eq_square)

lemma sqrt3_upper: "sqrt 3 < 1.7321"
  by (rule real_less_lsqrt) (simp_all add: power2_eq_square)

section \<open>The diameter of the equivalent sphere\<close>

lemma cube_root_cube: "0 < X \<Longrightarrow> (X powr (1 / 3)) ^ 3 = (X::real)"
proof -
  assume "0 < X"
  have "(X powr (1 / 3)) ^ 3 = (X powr (1 / 3)) powr 3"
    by simp
  also have "\<dots> = X powr 1" by (simp only: powr_powr) simp
  also have "\<dots> = X" using \<open>0 < X\<close> by simp
  finally show ?thesis .
qed

lemma diameter_prism_volume:
  "diameter L H = 2 * (3 * prism_volume L H / (4 * pi)) powr (1 / 3)"
  by (simp add: diameter_def prism_volume_def power2_eq_square mult.assoc)

lemma sphere_volume_diameter:
  assumes "0 < L" and "0 < H"
  shows "sphere_volume (diameter L H) = prism_volume L H"
proof -
  have "0 < prism_volume L H"
    using assms by (simp add: prism_volume_def)
  then have X: "0 < 3 * prism_volume L H / (4 * pi)" by simp
  have "sphere_volume (diameter L H) = 4 / 3 * pi * ((3 * prism_volume L H / (4 * pi)) powr (1 / 3)) ^ 3"
    by (simp add: sphere_volume_def diameter_prism_volume)
  also have "\<dots> = 4 / 3 * pi * (3 * prism_volume L H / (4 * pi))"
    by (simp only: cube_root_cube[OF X])
  also have "\<dots> = prism_volume L H" by simp
  finally show ?thesis .
qed

lemma diameter_50_20_lower: "34.55 < diameter 50 20"
proof -
  let ?X = "3 * sqrt 3 * 50 * 50 * 20 / (16 * pi)"
  have "5156 * pi < 5156 * 3.147" using pi_upper by simp
  also have "\<dots> < 9375 * 1.732" by simp
  also have "\<dots> < 9375 * sqrt 3" using sqrt3_lower by simp
  finally have "5156 < 9375 * sqrt 3 / pi" by (simp add: pos_less_divide_eq)
  then have X: "5156 < ?X" by simp
  have "(17.275::real) = (17.275 ^ 3) powr (1 / 3)"
    by (simp add: powr_powr flip: powr_numeral)
  also have "\<dots> < 5156 powr (1 / 3)"
    by (rule powr_less_mono2) (simp_all add: power_divide)
  also have "\<dots> < ?X powr (1 / 3)"
    using X by (intro powr_less_mono2) simp_all
  finally show ?thesis by (simp add: diameter_def)
qed

lemma diameter_50_20_upper: "diameter 50 20 < 34.65"
proof -
  let ?X = "3 * sqrt 3 * 50 * 50 * 20 / (16 * pi)"
  have "9375 * sqrt 3 < 9375 * 1.7321" using sqrt3_upper by simp
  also have "\<dots> < 5200 * 3.136" by simp
  also have "\<dots> < 5200 * pi" using pi_lower by simp
  finally have "9375 * sqrt 3 / pi < 5200" by (simp add: pos_divide_less_eq)
  then have X: "?X < 5200" by simp
  have "0 \<le> ?X" by simp
  then have "?X powr (1 / 3) < 5200 powr (1 / 3)"
    using X by (intro powr_less_mono2) simp_all
  also have "\<dots> < (17.325 ^ 3) powr (1 / 3)"
    by (rule powr_less_mono2) (simp_all add: power_divide)
  also have "\<dots> = (17.325::real)"
    by (simp add: powr_powr flip: powr_numeral)
  finally show ?thesis by (simp add: diameter_def)
qed

text \<open>
  C8, the numerical value. The diameter of the prism with \<open>L = 50\<close>, \<open>H = 20\<close> is
  \<open>2 (3 sqrt 3 50\<^sup>2 20 / (16 \<pi>)) powr (1/3)\<close>, about 34.58 nm: it is not 34.3 to one decimal.
\<close>

theorem diameter_50_20_not_34_3: "\<not> \<bar>diameter 50 20 - 34.3\<bar> \<le> 0.05"
  using diameter_50_20_lower by simp

text \<open>
  C8, as amended. For \<open>L > 0\<close> and \<open>H > 0\<close>, \<open>diameter L H\<close> is the diameter of the sphere
  whose volume is the prism volume \<open>V = (sqrt 3 / 4) L\<^sup>2 H\<close>, that is
  \<open>2 (3 V / (4 \<pi>)) powr (1/3)\<close>; in particular \<open>diameter 50 20\<close> is
  \<open>2 (3 sqrt 3 50\<^sup>2 20 / (16 \<pi>)) powr (1/3)\<close>, which is 34.6 nm to one decimal.
\<close>

theorem diameter_equivalent_sphere:
  assumes "0 < L" and "0 < H"
  shows "diameter L H = 2 * (3 * prism_volume L H / (4 * pi)) powr (1 / 3)
     \<and> sphere_volume (diameter L H) = prism_volume L H
     \<and> diameter 50 20 = 2 * (3 * sqrt 3 * 50\<^sup>2 * 20 / (16 * pi)) powr (1 / 3)
     \<and> \<bar>diameter 50 20 - 34.6\<bar> < 0.05"
proof -
  have "diameter 50 20 = 2 * (3 * sqrt 3 * 50\<^sup>2 * 20 / (16 * pi)) powr (1 / 3)"
    by (simp add: diameter_def)
  moreover have "\<bar>diameter 50 20 - 34.6\<bar> < 0.05"
    unfolding abs_less_iff using diameter_50_20_lower diameter_50_20_upper by simp
  ultimately show ?thesis
    using diameter_prism_volume[of L H] sphere_volume_diameter[OF assms] by blast
qed

theorem diameter_equivalent_sphere_witness:
  "(0::real) < 50 \<and> (0::real) < 20
     \<and> diameter 50 20 = 2 * (3 * prism_volume 50 20 / (4 * pi)) powr (1 / 3)
     \<and> sphere_volume (diameter 50 20) = prism_volume 50 20
     \<and> diameter 50 20 = 2 * (3 * sqrt 3 * 50\<^sup>2 * 20 / (16 * pi)) powr (1 / 3)
     \<and> \<bar>diameter 50 20 - 34.6\<bar> < 0.05"
proof -
  have h: "(0::real) < 50" "(0::real) < 20" by simp_all
  show ?thesis using h diameter_equivalent_sphere[OF h] by blast
qed

section \<open>The sign of the cross sections\<close>

lemma scatCSdip_nonneg: "0 \<le> scatCSdip lambda eps_m eps_h L H R"
  by (simp add: scatCSdip_def Let_def)

lemma extCSdip_sign:
  assumes "0 < lambda" and "0 < eps_h"
  shows "0 \<le> extCSdip lambda eps_m eps_h L H R \<longleftrightarrow> 0 \<le> Im (dipPolariz lambda eps_m eps_h L H R)"
proof -
  have "0 < 4 * pi * (2 * pi * sqrt eps_h / lambda) * (1 / 10 ^ 14)"
    using assms by simp
  then show ?thesis
    unfolding extCSdip_def Let_def
    by (smt (verit, best) mult.assoc mult.commute zero_le_mult_iff mult_less_0_iff)
qed

text \<open>The imaginary part of a real number over a complex one.\<close>

lemma Im_real_over: "Im (of_real c / d) = - c * Im d / (cmod d)\<^sup>2"
  by (simp add: Im_divide cmod_power2)

lemma Im_one_over_nonpos:
  assumes "0 \<le> Im z"
  shows "Im (1 / z) \<le> 0"
proof -
  have "Im (1 / z) = - (Im z / ((Re z)\<^sup>2 + (Im z)\<^sup>2))"
    by (simp add: Im_divide)
  moreover have "0 \<le> Im z / ((Re z)\<^sup>2 + (Im z)\<^sup>2)"
    using assms by (intro divide_nonneg_nonneg) simp_all
  ultimately show ?thesis by simp
qed

lemma Im_inverse_shifted:
  assumes "0 < eps_h" and "0 \<le> Im eps_m"
  shows "Im (1 / (eps_m / of_real eps_h - 1)) \<le> 0"
proof (rule Im_one_over_nonpos)
  show "0 \<le> Im (eps_m / of_real eps_h - 1)"
    using assms by simp
qed

lemma quotient_nonneg: "0 \<le> c \<Longrightarrow> D \<le> 0 \<Longrightarrow> 0 \<le> - c * D / (m::real)\<^sup>2"
  by (simp add: mult_nonneg_nonpos divide_nonpos_nonneg)

lemma quotient_neg: "c < 0 \<Longrightarrow> D < 0 \<Longrightarrow> m \<noteq> 0 \<Longrightarrow> - c * D / (m::real)\<^sup>2 < 0"
  by (simp add: mult_neg_neg divide_neg_pos)

lemma Im_spec_alpha:
  "Im (spec_alpha lambda eps_m eps_h L H R)
   = - (1 / (4 * pi) * spec_V1 L H R)
     * (Im (1 / (eps_m / of_real eps_h - 1))
        - 4 * pi\<^sup>2 / 3 * (spec_V1 L H R / L ^ 3) * (spec_s lambda eps_h L) ^ 3)
     / (cmod (1 / (eps_m / of_real eps_h - 1) - 1 / (of_real (fit_eps_c L H R) - 1)
              - spec_Arc lambda eps_h L H R))\<^sup>2"
  unfolding spec_alpha_def Im_real_over Im_denominator ..

lemma Im_spec_alpha_nonneg:
  assumes "0 < lambda" and "0 < eps_h" and "0 < L" and "0 < H"
    and "0 \<le> Im eps_m" and "0 \<le> fit_beta L H R"
  shows "0 \<le> Im (spec_alpha lambda eps_m eps_h L H R)"
proof -
  have V: "0 \<le> spec_V1 L H R"
    using assms by (simp add: spec_V1_def prism_volume_def)
  have s: "0 \<le> spec_s lambda eps_h L"
    using assms by (simp add: spec_s_def)
  have "0 \<le> 4 * pi\<^sup>2 / 3 * (spec_V1 L H R / L ^ 3) * (spec_s lambda eps_h L) ^ 3"
    using V s assms(3) by simp
  then have d: "Im (1 / (eps_m / of_real eps_h - 1))
        - 4 * pi\<^sup>2 / 3 * (spec_V1 L H R / L ^ 3) * (spec_s lambda eps_h L) ^ 3 \<le> 0"
    using Im_inverse_shifted[OF assms(2,5)] by linarith
  have c: "0 \<le> 1 / (4 * pi) * spec_V1 L H R" using V by simp
  show ?thesis
    unfolding Im_spec_alpha using c d by (rule quotient_nonneg)
qed

lemma Im_spec_alpha_neg:
  assumes "spec_V1 L H R < 0"
    and "Im (1 / (eps_m / of_real eps_h - 1))
        - 4 * pi\<^sup>2 / 3 * (spec_V1 L H R / L ^ 3) * (spec_s lambda eps_h L) ^ 3 < 0"
  shows "Im (spec_alpha lambda eps_m eps_h L H R) < 0"
proof -
  let ?d = "1 / (eps_m / of_real eps_h - 1) - 1 / (of_real (fit_eps_c L H R) - 1)
              - spec_Arc lambda eps_h L H R"
  have "Im ?d \<noteq> 0"
    using assms(2) by (simp only: Im_denominator)
  then have "?d \<noteq> 0" by (rule Im_nonzero)
  then have m: "cmod ?d \<noteq> 0" by simp
  have c: "1 / (4 * pi) * spec_V1 L H R < 0"
    using assms(1) by (simp add: divide_neg_pos)
  show ?thesis
    unfolding Im_spec_alpha using c assms(2) m by (rule quotient_neg)
qed

lemma powr_1000: "(1000::real) powr (- (2 / 3)) = 1 / 100" "(1000::real) powr (- (1 / 3)) = 1 / 10"
proof -
  have e: "(1000::real) = 10 powr 3" by simp
  have "(1000::real) powr (- (2 / 3)) = 10 powr (- 2)"
    by (subst e) (simp only: powr_powr, simp)
  then show "(1000::real) powr (- (2 / 3)) = 1 / 100"
    by (simp add: powr_minus_divide)
  have "(1000::real) powr (- (1 / 3)) = 10 powr (- 1)"
    by (subst e) (simp only: powr_powr, simp)
  then show "(1000::real) powr (- (1 / 3)) = 1 / 10"
    by (simp add: powr_minus_divide)
qed

text \<open>
  A prism with \<open>L = 100.1\<close>, \<open>H = 100\<close>, \<open>R = 0.1\<close> nm: the fitted factor \<open>\<beta>\<close> is negative.
\<close>

lemma fit_beta_example:
  "- 0.0325 < fit_beta 100.1 100 0.1 \<and> fit_beta 100.1 100 0.1 < - 0.004"
proof -
  define a :: real where "a = 1.001 powr (- 1.27802)"
  define b :: real where "b = 1001 powr (- 0.928178)"
  define c :: real where "c = 1000 powr (- 0.619604)"
  have r: "(100.1::real) / 100 = 1.001" "(100.1::real) / 0.1 = 1001" "(100::real) / 0.1 = 1000"
    by simp_all
  have beta: "fit_beta 100.1 100 0.1 = - 0.649487 * a + 1.87718 * b + 0.0784606 * c + 0.617065"
    by (simp only: fit_beta_def power_law4_def r a_def b_def c_def)
  have "(1.001::real) powr (- 2) \<le> a"
    unfolding a_def by (rule powr_mono) simp_all
  moreover have "(1.001::real) powr (- 2) = 1 / 1.002001"
    by (simp add: powr_minus_divide power2_eq_square)
  ultimately have a_lo: "1 / 1.002001 \<le> a" by simp
  have "a \<le> (1.001::real) powr 0"
    unfolding a_def by (rule powr_mono) simp_all
  then have a_hi: "a \<le> 1" by simp
  have "b \<le> (1001::real) powr (- (2 / 3))"
    unfolding b_def by (rule powr_mono) simp_all
  also have "\<dots> \<le> (1000::real) powr (- (2 / 3))"
    by (rule powr_mono2') simp_all
  finally have b_hi: "b \<le> 1 / 100" by (simp only: powr_1000)
  have "c \<le> (1000::real) powr (- (1 / 3))"
    unfolding c_def by (rule powr_mono) simp_all
  then have c_hi: "c \<le> 1 / 10" by (simp only: powr_1000)
  have b_lo: "0 \<le> b" and c_lo: "0 \<le> c"
    by (simp_all add: b_def c_def)
  have "- 0.0325 < fit_beta 100.1 100 0.1"
    unfolding beta using a_hi b_lo c_lo by simp
  moreover have "fit_beta 100.1 100 0.1 < - 0.004"
    unfolding beta using a_lo b_hi c_hi by simp
  ultimately show ?thesis ..
qed

lemma Im_denominator_example:
  "Im (1 / (Complex (- 10) 0.5 / of_real 1 - 1))
     - 4 * pi\<^sup>2 / 3 * (spec_V1 100.1 100 0.1 / 100.1 ^ 3) * (spec_s 600 1 100.1) ^ 3 < 0"
proof -
  define B where "B = - fit_beta 100.1 100 0.1"
  have B: "0 \<le> B" "B \<le> 0.0325"
    using fit_beta_example by (auto simp: B_def)
  have z: "Im (1 / (Complex (- 10) 0.5 / of_real 1 - 1)) = - (2 / 485)"
    by (simp add: Im_divide power2_eq_square)
  have T: "4 * pi\<^sup>2 / 3 * (spec_V1 100.1 100 0.1 / 100.1 ^ 3) * (spec_s 600 1 100.1) ^ 3
      = - (1002001 / 648000000 * (pi\<^sup>2 * (sqrt 3 * B)))"
    by (simp add: spec_V1_def prism_volume_def spec_s_def B_def power2_eq_square power3_eq_cube)
  have p: "pi\<^sup>2 \<le> 4\<^sup>2"
    using pi_less_4 pi_gt_zero by (intro power_mono) simp_all
  have "sqrt 3 \<le> 2" using sqrt3_upper by simp
  then have q: "sqrt 3 * B \<le> 2 * 0.0325"
    using B(2) by (rule mult_mono) (use B(1) in simp_all)
  have nn: "0 \<le> sqrt 3 * B" using B by simp
  define W where "W = pi\<^sup>2 * (sqrt 3 * B)"
  have "W \<le> 4\<^sup>2 * (2 * 0.0325)"
    unfolding W_def using p q by (rule mult_mono) (use nn in simp_all)
  then show ?thesis
    unfolding z T W_def[symmetric] by simp
qed

text \<open>The prism with \<open>L = 100.1\<close>, \<open>H = 100\<close>, \<open>R = 0.1\<close> nm divides by no zero.\<close>

lemma fit_eps_c_example: "fit_eps_c 100.1 100 0.1 < 1"
proof -
  define a :: real where "a = 1.001 powr 0.904851"
  define b :: real where "b = 1001 powr (- 9.71985)"
  define c :: real where "c = 1000 powr (- 0.416187)"
  have r: "(100.1::real) / 100 = 1.001" "(100.1::real) / 0.1 = 1001" "(100::real) / 0.1 = 1000"
    by simp_all
  have e: "fit_eps_c 100.1 100 0.1 = - 1.73983 * a + 23.7005 * b + 3.73666 * c - 4.23387"
    by (simp only: fit_eps_c_def power_law4_def r a_def b_def c_def)
  have "0 \<le> a" by (simp add: a_def)
  moreover have "b \<le> (1001::real) powr (- 1)"
    unfolding b_def by (rule powr_mono) simp_all
  hence "b \<le> 0.001" by (simp add: powr_minus_divide)
  moreover have "c \<le> (1000::real) powr 0"
    unfolding c_def by (rule powr_mono) simp_all
  hence "c \<le> 1" by simp
  ultimately show ?thesis unfolding e by simp
qed

lemma dipPolariz_defined_example: "dipPolariz_defined 600 (Complex (- 10) 0.5) 1 100.1 100 0.1"
proof -
  have "Complex (- 10) 0.5 / of_real 1 - 1 \<noteq> 0" by (simp add: complex_eq_iff)
  moreover have "fit_eps_c 100.1 100 0.1 \<noteq> 1" using fit_eps_c_example by simp
  moreover have "Im (1 / (Complex (- 10) 0.5 / of_real 1 - 1)
      - 1 / (of_real (fit_eps_c 100.1 100 0.1) - 1) - spec_Arc 600 1 100.1 100 0.1) \<noteq> 0"
    using Im_denominator_example by (simp only: Im_denominator)
  hence "1 / (Complex (- 10) 0.5 / of_real 1 - 1)
      - 1 / (of_real (fit_eps_c 100.1 100 0.1) - 1) - spec_Arc 600 1 100.1 100 0.1 \<noteq> 0"
    by (rule Im_nonzero)
  ultimately show ?thesis by (simp only: dipPolariz_defined_iff) simp
qed

text \<open>
  C7, the extinction. A prism with \<open>L = 100.1\<close>, \<open>H = 100\<close>, \<open>R = 0.1\<close> nm of a passive
  material with \<open>\<epsilon>\<^sub>m = - 10 + 0.5 i\<close> in a host with \<open>\<epsilon>\<^sub>h = 1\<close>, at \<open>\<lambda> = 600\<close> nm: all
  inputs are positive, \<open>L > H > R\<close>, the material absorbs, no divisor is zero, the fitted
  factor \<open>\<beta>\<close> is negative, and the extinction cross section returned is negative.
\<close>

theorem extinction_negative_example:
  "(0::real) < 600 \<and> (0::real) < 1 \<and> (0::real) < 0.1 \<and> (0.1::real) < 100 \<and> (100::real) < 100.1
   \<and> 0 \<le> Im (Complex (- 10) 0.5)
   \<and> dipPolariz_defined 600 (Complex (- 10) 0.5) 1 100.1 100 0.1
   \<and> fit_beta 100.1 100 0.1 < 0
   \<and> extCSdip 600 (Complex (- 10) 0.5) 1 100.1 100 0.1 < 0"
proof -
  have "0 < prism_volume 100.1 100"
    by (simp add: prism_volume_def)
  then have "spec_V1 100.1 100 0.1 < 0"
    unfolding spec_V1_def using fit_beta_example by (intro mult_pos_neg) simp_all
  then have "Im (spec_alpha 600 (Complex (- 10) 0.5) 1 100.1 100 0.1) < 0"
    using Im_denominator_example by (rule Im_spec_alpha_neg)
  then have "Im (dipPolariz 600 (Complex (- 10) 0.5) 1 100.1 100 0.1) < 0"
    by (simp only: dipPolariz_spec_alpha)
  moreover have "(0::real) < 4 * pi * (2 * pi * sqrt 1 / 600) * (1 / 10 ^ 14)"
    by simp
  ultimately have "extCSdip 600 (Complex (- 10) 0.5) 1 100.1 100 0.1 < 0"
    unfolding extCSdip_def Let_def
    by (smt (verit, best) mult.assoc mult.commute mult_less_0_iff)
  moreover have "fit_beta 100.1 100 0.1 < 0"
    using fit_beta_example by simp
  ultimately show ?thesis
    using dipPolariz_defined_example by simp
qed

text \<open>
  C7, as amended. In exact arithmetic, for \<open>\<lambda> > 0\<close>, \<open>\<epsilon>\<^sub>h > 0\<close>, \<open>L, H, R > 0\<close> and a complex
  \<open>\<epsilon>\<^sub>m\<close> such that no divisor of \<open>dipPolariz\<close> is zero: the scattering cross section is
  non-negative; the extinction cross section is non-negative exactly when \<open>Im \<alpha> \<ge> 0\<close>
  for the computed polarizability, with no clamp; and it is non-negative for a passive
  material, \<open>Im \<epsilon>\<^sub>m \<ge> 0\<close>, whenever the fitted factor \<open>\<beta>\<close> of the geometry is non-negative.
\<close>

theorem cross_section_signs:
  assumes "0 < lambda" and "0 < eps_h" and "0 < L" and "0 < H" and "0 < R"
    and "dipPolariz_defined lambda eps_m eps_h L H R"
  shows "0 \<le> scatCSdip lambda eps_m eps_h L H R
     \<and> (0 \<le> extCSdip lambda eps_m eps_h L H R
          \<longleftrightarrow> 0 \<le> Im (dipPolariz lambda eps_m eps_h L H R))
     \<and> (0 \<le> Im eps_m \<and> 0 \<le> fit_beta L H R \<longrightarrow> 0 \<le> extCSdip lambda eps_m eps_h L H R)"
proof -
  have iff: "0 \<le> extCSdip lambda eps_m eps_h L H R
      \<longleftrightarrow> 0 \<le> Im (dipPolariz lambda eps_m eps_h L H R)"
    using assms(1,2) by (rule extCSdip_sign)
  have "0 \<le> extCSdip lambda eps_m eps_h L H R" if "0 \<le> Im eps_m" "0 \<le> fit_beta L H R"
    using Im_spec_alpha_nonneg[OF assms(1-4) that] iff by (simp add: dipPolariz_spec_alpha)
  then show ?thesis
    using scatCSdip_nonneg[of lambda eps_m eps_h L H R] iff by blast
qed

theorem cross_section_signs_witness:
  "(0::real) < 500 \<and> (0::real) < 1 \<and> (0::real) < 50 \<and> (0::real) < 20 \<and> (0::real) < 2
     \<and> dipPolariz_defined 500 (Complex (- 10) 1) 1 50 20 2
     \<and> 0 \<le> Im (Complex (- 10) 1) \<and> 0 \<le> fit_beta 50 20 2
     \<and> 0 \<le> scatCSdip 500 (Complex (- 10) 1) 1 50 20 2
     \<and> (0 \<le> extCSdip 500 (Complex (- 10) 1) 1 50 20 2
          \<longleftrightarrow> 0 \<le> Im (dipPolariz 500 (Complex (- 10) 1) 1 50 20 2))
     \<and> 0 \<le> extCSdip 500 (Complex (- 10) 1) 1 50 20 2"
  using cross_section_signs[of 500 1 50 20 2 "Complex (- 10) 1"] fit_beta_50_20_2
    dipPolariz_defined_50_20_2
  by auto

end
